theory Spec2Isabelle
  imports Complex_Main "HOL-Library.Log_Nat" "HOL-Library.AList"
begin

section \<open>The Python values the program computes with\<close>

text \<open>
  The backend is Python. Integers are unbounded (\<open>int\<close>), exceptions are values of
  \<open>pyerror\<close> returned on the left of a sum, and a \<open>float\<close> is an IEEE 754 double.
  A finite double is modelled by the rational number it denotes; signed zeros are
  identified, as Python's \<open>==\<close> does.
\<close>

datatype pyerror =
    ZeroDivisionError
  | OverflowError
  | ValueError
  | TypeError
  | AttributeError
  | TeamCountError nat "string list"
  | NoPlayersError string nat string nat
  | MissingTeamColumn
  | DuplicateGame nat

datatype pyfloat = Fin rat | PInf | NInf | NaN

definition ebind :: "'e + 'a \<Rightarrow> ('a \<Rightarrow> 'e + 'b) \<Rightarrow> 'e + 'b" where
  "ebind r f = (case r of Inl e \<Rightarrow> Inl e | Inr v \<Rightarrow> f v)"

text \<open>\<open>floor_log2 q\<close> is the exponent of the binade of a positive rational.\<close>

definition floor_log2 :: "rat \<Rightarrow> int" where
  "floor_log2 q = (let (a, b) = quotient_of q; k = bitlen a - bitlen b
                   in if 2 powi k \<le> q then k else k - 1)"

definition round_half_even :: "rat \<Rightarrow> int" where
  "round_half_even x = (let f = \<lfloor>x\<rfloor>; d = x - of_int f
     in if d < 1 / 2 then f else if 1 / 2 < d then f + 1 else if even f then f else f + 1)"

text \<open>
  Rounding of a real value to the nearest double, ties to even: 53 bits of mantissa,
  least exponent \<open>-1074\<close> (subnormals), and an infinity from \<open>2 ^ 1024\<close> on.
\<close>

definition nearest_double :: "rat \<Rightarrow> pyfloat" where
  "nearest_double q = (if q = 0 then Fin 0 else
     let e = max (floor_log2 \<bar>q\<bar> - 52) (- 1074);
         m = round_half_even (\<bar>q\<bar> / 2 powi e);
         v = of_int m * 2 powi e
     in if 2 ^ 1024 \<le> v then (if 0 < q then PInf else NInf) else Fin (sgn q * v))"

text \<open>
  \<open>a / b\<close> on two Python integers: the correctly rounded quotient; a zero divisor
  raises \<open>ZeroDivisionError\<close>, a quotient too large for a double raises
  \<open>OverflowError\<close>.
\<close>

definition py_truediv :: "int \<Rightarrow> int \<Rightarrow> pyerror + pyfloat" where
  "py_truediv a b = (if b = 0 then Inl ZeroDivisionError
     else case nearest_double (of_int a / of_int b) of
       Fin v \<Rightarrow> Inr (Fin v) | _ \<Rightarrow> Inl OverflowError)"

text \<open>
  \<open>round(x, 3)\<close>: the exact value of \<open>x\<close> is rounded half-even to three decimals and
  the decimal is converted back to the nearest double; infinities and NaN round to
  themselves.
\<close>

definition py_round3 :: "pyfloat \<Rightarrow> pyerror + pyfloat" where
  "py_round3 x = (case x of
      Fin v \<Rightarrow> (case nearest_double (of_int (round_half_even (v * 1000)) / 1000) of
                   Fin w \<Rightarrow> Inr (Fin w) | _ \<Rightarrow> Inl OverflowError)
    | _ \<Rightarrow> Inr x)"

text \<open>\<open>x + y\<close> on floats never raises; it overflows to an infinity.\<close>

fun py_fadd :: "pyfloat \<Rightarrow> pyfloat \<Rightarrow> pyfloat" where
  "py_fadd (Fin a) (Fin b) = nearest_double (a + b)"
| "py_fadd NaN _ = NaN"
| "py_fadd _ NaN = NaN"
| "py_fadd PInf NInf = NaN"
| "py_fadd NInf PInf = NaN"
| "py_fadd PInf _ = PInf"
| "py_fadd _ PInf = PInf"
| "py_fadd NInf _ = NInf"
| "py_fadd _ NInf = NInf"

section \<open>Stat calculator (\<open>app/utils/stat_calculators.py\<close>)\<close>

record derived =
  d_singles :: int
  d_PA :: int
  d_TB :: int
  d_AVG :: pyfloat
  d_OBP :: pyfloat
  d_SLG :: pyfloat
  d_OPS :: pyfloat

definition compute_derived_stats_from_raw ::
  "int \<Rightarrow> int \<Rightarrow> int \<Rightarrow> int \<Rightarrow> int \<Rightarrow> int \<Rightarrow> int \<Rightarrow> int \<Rightarrow> int \<Rightarrow> pyerror + derived" where
  "compute_derived_stats_from_raw ab h double triple hr bb hbp sf sh =
    (let singles = h - double - triple - hr;
         pa = ab + bb + hbp + sf + sh;
         tb = singles + 2 * double + 3 * triple + 4 * hr
     in ebind (if 0 < ab then ebind (py_truediv h ab) py_round3 else Inr (Fin 0)) (\<lambda>avg.
        let obp_denom = ab + bb + hbp + sf
        in ebind (if 0 < obp_denom then ebind (py_truediv (h + bb + hbp) obp_denom) py_round3
                  else Inr (Fin 0)) (\<lambda>obp.
           ebind (if 0 < ab then ebind (py_truediv tb ab) py_round3 else Inr (Fin 0)) (\<lambda>slg.
           ebind (py_round3 (py_fadd obp slg)) (\<lambda>ops.
             Inr \<lparr>d_singles = singles, d_PA = pa, d_TB = tb,
                  d_AVG = avg, d_OBP = obp, d_SLG = slg, d_OPS = ops\<rparr>)))))"

section \<open>Python strings\<close>

text \<open>
  A \<open>str\<close> is a list of characters; the model covers the code points below 256
  (ASCII and Latin-1), which is what the 8-bit type \<open>char\<close> holds. \<open>is_space\<close> is
  \<open>str.isspace\<close>, \<open>strip\<close> is \<open>str.strip()\<close>, \<open>strip_char c\<close> is \<open>str.strip(c)\<close>,
  \<open>lower\<close> is \<open>str.lower()\<close>, \<open>split_on c\<close> is \<open>str.split(c)\<close>, \<open>contains sub s\<close>
  is \<open>sub in s\<close>, \<open>is_digit\<close> is \<open>str.isdigit\<close> on one character (it accepts the
  superscript digits too) and \<open>is_decimal\<close> is the regular expression class \<open>\d\<close>.
\<close>

definition is_space :: "char \<Rightarrow> bool" where
  "is_space c = (let n = (of_char c :: nat)
                 in (9 \<le> n \<and> n \<le> 13) \<or> (28 \<le> n \<and> n \<le> 32) \<or> n = 133 \<or> n = 160)"

definition strip_by :: "(char \<Rightarrow> bool) \<Rightarrow> string \<Rightarrow> string" where
  "strip_by P s = rev (dropWhile P (rev (dropWhile P s)))"

definition strip :: "string \<Rightarrow> string" where
  "strip = strip_by is_space"

definition strip_char :: "char \<Rightarrow> string \<Rightarrow> string" where
  "strip_char c = strip_by (\<lambda>x. x = c)"

definition lower_char :: "char \<Rightarrow> char" where
  "lower_char c = (let n = (of_char c :: nat)
                   in if (65 \<le> n \<and> n \<le> 90) \<or> (192 \<le> n \<and> n \<le> 222 \<and> n \<noteq> 215)
                      then char_of (n + 32) else c)"

definition lower :: "string \<Rightarrow> string" where
  "lower = map lower_char"

fun split_on :: "char \<Rightarrow> string \<Rightarrow> string list" where
  "split_on c [] = [[]]"
| "split_on c (x # xs) =
     (if x = c then [] # split_on c xs
      else (case split_on c xs of w # ws \<Rightarrow> (x # w) # ws | [] \<Rightarrow> [[x]]))"

fun starts_with :: "string \<Rightarrow> string \<Rightarrow> bool" where
  "starts_with [] s = True"
| "starts_with (p # ps) [] = False"
| "starts_with (p # ps) (x # xs) = (p = x \<and> starts_with ps xs)"

fun contains :: "string \<Rightarrow> string \<Rightarrow> bool" where
  "contains sub [] = (sub = [])"
| "contains sub (x # xs) = (starts_with sub (x # xs) \<or> contains sub xs)"

definition is_decimal :: "char \<Rightarrow> bool" where
  "is_decimal c = (let n = (of_char c :: nat) in 48 \<le> n \<and> n \<le> 57)"

definition is_digit :: "char \<Rightarrow> bool" where
  "is_digit c = (let n = (of_char c :: nat)
                 in (48 \<le> n \<and> n \<le> 57) \<or> n = 178 \<or> n = 179 \<or> n = 185)"

definition isdigit :: "string \<Rightarrow> bool" where
  "isdigit s = (s \<noteq> [] \<and> list_all is_digit s)"

definition is_linebreak :: "char \<Rightarrow> bool" where
  "is_linebreak c = (let n = (of_char c :: nat)
                     in (10 \<le> n \<and> n \<le> 13) \<or> (28 \<le> n \<and> n \<le> 30) \<or> n = 133)"

text \<open>\<open>str.splitlines()\<close>; the first argument is the current line, reversed.\<close>

fun splitlines_acc :: "string \<Rightarrow> string \<Rightarrow> string list" where
  "splitlines_acc acc [] = (if acc = [] then [] else [rev acc])"
| "splitlines_acc acc [c] = (if is_linebreak c then [rev acc] else [rev (c # acc)])"
| "splitlines_acc acc (c # d # cs) =
     (if c = CHR 0x0D \<and> d = CHR 0x0A then rev acc # splitlines_acc [] cs
      else if is_linebreak c then rev acc # splitlines_acc [] (d # cs)
      else splitlines_acc (c # acc) (d # cs))"

definition splitlines :: "string \<Rightarrow> string list" where
  "splitlines s = splitlines_acc [] s"

subsection \<open>\<open>float(str)\<close> and \<open>int(float)\<close>\<close>

definition digit_val :: "char \<Rightarrow> nat" where
  "digit_val c = of_char c - 48"

definition digits_value :: "string \<Rightarrow> nat" where
  "digits_value ds = foldl (\<lambda>n c. 10 * n + digit_val c) 0 ds"

text \<open>
  A run of digits in which single underscores may separate digits; the result is the
  digits read and the rest of the string. \<open>digitpart_tail\<close> continues after a digit.
\<close>

fun digitpart_tail :: "string \<Rightarrow> string \<times> string" where
  "digitpart_tail [] = ([], [])"
| "digitpart_tail [c] = (if is_decimal c then ([c], []) else ([], [c]))"
| "digitpart_tail (c # d # cs) =
     (if is_decimal c then (let (ds, r) = digitpart_tail (d # cs) in (c # ds, r))
      else if c = CHR ''_'' \<and> is_decimal d then (let (ds, r) = digitpart_tail cs in (d # ds, r))
      else ([], c # d # cs))"

definition digitpart :: "string \<Rightarrow> string \<times> string" where
  "digitpart s = (case s of [] \<Rightarrow> ([], [])
     | c # cs \<Rightarrow> if is_decimal c then (let (ds, r) = digitpart_tail cs in (c # ds, r)) else ([], s))"

definition take_sign :: "string \<Rightarrow> int \<times> string" where
  "take_sign s = (case s of [] \<Rightarrow> (1, [])
     | c # cs \<Rightarrow> if c = CHR ''+'' then (1, cs) else if c = CHR ''-'' then (- 1, cs) else (1, s))"

text \<open>
  \<open>float(s)\<close>: surrounding whitespace, a sign, then \<open>inf\<close>, \<open>infinity\<close> or \<open>nan\<close> in any
  case, or a decimal numeral with an optional fraction and exponent, correctly
  rounded. Anything else raises \<open>ValueError\<close>.
\<close>

definition py_float_of_str :: "string \<Rightarrow> pyerror + pyfloat" where
  "py_float_of_str s =
    (let (sg, u) = take_sign (strip s); lu = lower u
     in if lu = ''inf'' \<or> lu = ''infinity'' then Inr (if sg = 1 then PInf else NInf)
        else if lu = ''nan'' then Inr NaN
        else
          let (ip, r1) = digitpart u;
              (fp, r2) = (case r1 of [] \<Rightarrow> ([], r1)
                          | c # cs \<Rightarrow> if c = CHR ''.'' then digitpart cs else ([], r1))
          in if ip = [] \<and> fp = [] then Inl ValueError
             else
               let mant = of_int sg * of_nat (digits_value (ip @ fp)) :: rat;
                   scale = - int (length fp)
               in (case r2 of
                     [] \<Rightarrow> Inr (nearest_double (mant * 10 powi scale))
                   | c # cs \<Rightarrow>
                       if c = CHR ''e'' \<or> c = CHR ''E'' then
                         (let (esg, r3) = take_sign cs; (ed, r4) = digitpart r3
                          in if ed = [] \<or> r4 \<noteq> [] then Inl ValueError
                             else Inr (nearest_double
                                    (mant * 10 powi (esg * int (digits_value ed) + scale))))
                       else Inl ValueError))"

definition py_int_of_float :: "pyfloat \<Rightarrow> pyerror + int" where
  "py_int_of_float x = (case x of
      Fin v \<Rightarrow> Inr (if 0 \<le> v then \<lfloor>v\<rfloor> else \<lceil>v\<rceil>)
    | NaN \<Rightarrow> Inl ValueError
    | _ \<Rightarrow> Inl OverflowError)"

text \<open>
  The first match of the regular expression \<open>-?\d+\.?\d*\<close> in a string
  (\<open>re.findall(...)[0]\<close>), if there is one: \<open>number_at\<close> matches at the head of the
  string, \<open>first_number\<close> searches from left to right.
\<close>

definition number_at :: "string \<Rightarrow> string option" where
  "number_at s =
    (let (neg, t) = (case s of [] \<Rightarrow> ([], s)
                     | c # cs \<Rightarrow> if c = CHR ''-'' then ([c], cs) else ([], s));
         ds = takeWhile is_decimal t; r = dropWhile is_decimal t
     in if ds = [] then None
        else (case r of
                [] \<Rightarrow> Some (neg @ ds)
              | c # cs \<Rightarrow> if c = CHR ''.'' then Some (neg @ ds @ [c] @ takeWhile is_decimal cs)
                          else Some (neg @ ds)))"

fun first_number :: "string \<Rightarrow> string option" where
  "first_number [] = None"
| "first_number (c # cs) =
     (case number_at (c # cs) of Some m \<Rightarrow> Some m | None \<Rightarrow> first_number cs)"

section \<open>Entities (\<open>app/models\<close>)\<close>

text \<open>
  The fourteen raw counting fields are shared by \<open>PlateAppearance\<close>, \<open>HitterTotal\<close>, the
  parsed player rows and the accumulators of the aggregation, so they are one record.
  The \<open>id\<close> of a stored entity is its key in the store's dictionary; the \<open>created_at\<close>
  timestamps and the \<open>raw_json\<close> copy of the source row are left out.
\<close>

record counting =
  c_AB :: int
  c_H :: int
  c_double :: int
  c_triple :: int
  c_HR :: int
  c_BB :: int
  c_HBP :: int
  c_SF :: int
  c_SH :: int
  c_K :: int
  c_R :: int
  c_RBI :: int
  c_SB :: int
  c_CS :: int

definition zero_counting :: counting where
  "zero_counting = \<lparr>c_AB = 0, c_H = 0, c_double = 0, c_triple = 0, c_HR = 0, c_BB = 0,
     c_HBP = 0, c_SF = 0, c_SH = 0, c_K = 0, c_R = 0, c_RBI = 0, c_SB = 0, c_CS = 0\<rparr>"

definition add_counting :: "counting \<Rightarrow> counting \<Rightarrow> counting" where
  "add_counting a b = \<lparr>c_AB = c_AB a + c_AB b, c_H = c_H a + c_H b,
     c_double = c_double a + c_double b, c_triple = c_triple a + c_triple b,
     c_HR = c_HR a + c_HR b, c_BB = c_BB a + c_BB b, c_HBP = c_HBP a + c_HBP b,
     c_SF = c_SF a + c_SF b, c_SH = c_SH a + c_SH b, c_K = c_K a + c_K b,
     c_R = c_R a + c_R b, c_RBI = c_RBI a + c_RBI b, c_SB = c_SB a + c_SB b,
     c_CS = c_CS a + c_CS b\<rparr>"

type_synonym date = "nat \<times> nat \<times> nat"

record player =
  player_name :: string
  player_team :: string
  player_league :: "string option"

record game =
  game_league :: string
  game_season :: string
  game_date :: date
  home_team :: string
  away_team :: string
  home_score :: int
  away_score :: int
  winner :: "string option"

record plate_appearance =
  pa_game_id :: nat
  pa_player_id :: nat
  pa_team :: string
  pa_counts :: counting

record hitter_total =
  ht_player_id :: nat
  ht_league :: string
  ht_season :: string
  ht_games :: nat
  ht_counts :: counting
  ht_singles :: int
  ht_PA :: int
  ht_TB :: int
  ht_AVG :: pyfloat
  ht_OBP :: pyfloat
  ht_SLG :: pyfloat
  ht_OPS :: pyfloat

text \<open>\<open>HitterTotal(player_id=..., league=..., season=...)\<close> with the defaults of the model.\<close>

definition new_hitter_total :: "nat \<Rightarrow> string \<Rightarrow> string \<Rightarrow> hitter_total" where
  "new_hitter_total pid league season =
    \<lparr>ht_player_id = pid, ht_league = league, ht_season = season, ht_games = 0,
     ht_counts = zero_counting, ht_singles = 0, ht_PA = 0, ht_TB = 0,
     ht_AVG = Fin 0, ht_OBP = Fin 0, ht_SLG = Fin 0, ht_OPS = Fin 0\<rparr>"

text \<open>
  \<open>compute_derived_stats\<close> assigns the derived fields of a \<open>HitterTotal\<close> one after the
  other. A division that raises leaves the fields assigned so far in place, so the
  result is the object as far as it was updated, and the exception if there was one.
\<close>

definition compute_derived_stats :: "hitter_total \<Rightarrow> hitter_total \<times> pyerror option" where
  "compute_derived_stats ht =
    (let c = ht_counts ht;
         ht1 = ht\<lparr>ht_singles := c_H c - c_double c - c_triple c - c_HR c\<rparr>;
         ht2 = ht1\<lparr>ht_PA := c_AB c + c_BB c + c_HBP c + c_SF c + c_SH c\<rparr>;
         ht3 = ht2\<lparr>ht_TB := ht_singles ht2 + 2 * c_double c + 3 * c_triple c + 4 * c_HR c\<rparr>
     in case (if 0 < c_AB c then ebind (py_truediv (c_H c) (c_AB c)) py_round3
              else Inr (Fin 0)) of
          Inl e \<Rightarrow> (ht3, Some e)
        | Inr avg \<Rightarrow>
            let ht4 = ht3\<lparr>ht_AVG := avg\<rparr>;
                obp_denom = c_AB c + c_BB c + c_HBP c + c_SF c
            in case (if 0 < obp_denom
                     then ebind (py_truediv (c_H c + c_BB c + c_HBP c) obp_denom) py_round3
                     else Inr (Fin 0)) of
                 Inl e \<Rightarrow> (ht4, Some e)
               | Inr obp \<Rightarrow>
                   let ht5 = ht4\<lparr>ht_OBP := obp\<rparr>
                   in case (if 0 < c_AB c then ebind (py_truediv (ht_TB ht5) (c_AB c)) py_round3
                            else Inr (Fin 0)) of
                        Inl e \<Rightarrow> (ht5, Some e)
                      | Inr slg \<Rightarrow>
                          let ht6 = ht5\<lparr>ht_SLG := slg\<rparr>
                          in case py_round3 (py_fadd (ht_OBP ht6) (ht_SLG ht6)) of
                               Inl e \<Rightarrow> (ht6, Some e)
                             | Inr ops \<Rightarrow> (ht6\<lparr>ht_OPS := ops\<rparr>, None))"

section \<open>Entity store (\<open>app/storage/memory_store.py\<close>)\<close>

text \<open>
  Every dictionary of \<open>MemoryStore\<close> is an association list in insertion order:
  \<open>map_of\<close> looks a key up, \<open>AList.update\<close> assigns to a key, keeping the position of a
  key that is present and appending a new one, as a Python \<open>dict\<close> does. The storyline
  collection plays no part here and is left out.
\<close>

record memory_store =
  players :: "(nat \<times> player) list"
  games :: "(nat \<times> game) list"
  plate_appearances :: "(nat \<times> plate_appearance) list"
  hitter_totals :: "(nat \<times> hitter_total) list"
  player_id_counter :: nat
  game_id_counter :: nat
  plate_appearance_id_counter :: nat
  hitter_total_id_counter :: nat
  player_index :: "((string \<times> string) \<times> nat) list"
  hitter_total_index :: "((nat \<times> string \<times> string) \<times> nat) list"

definition empty_store :: memory_store where
  "empty_store = \<lparr>players = [], games = [], plate_appearances = [], hitter_totals = [],
     player_id_counter = 0, game_id_counter = 0, plate_appearance_id_counter = 0,
     hitter_total_id_counter = 0, player_index = [], hitter_total_index = []\<rparr>"

definition player_key :: "string \<Rightarrow> string \<Rightarrow> string \<times> string" where
  "player_key name team = (strip (lower name), strip (lower team))"

definition create_player :: "memory_store \<Rightarrow> player \<Rightarrow> memory_store \<times> nat" where
  "create_player st p =
    (let pid = player_id_counter st + 1
     in (st\<lparr>player_id_counter := pid,
            players := AList.update pid p (players st),
            player_index :=
              AList.update (player_key (player_name p) (player_team p)) pid (player_index st)\<rparr>,
         pid))"

definition get_player_by_name_team ::
  "memory_store \<Rightarrow> string \<Rightarrow> string \<Rightarrow> (nat \<times> player) option" where
  "get_player_by_name_team st name team =
    (case map_of (player_index st) (player_key name team) of
       None \<Rightarrow> None
     | Some pid \<Rightarrow> if pid \<noteq> 0 then map_option (Pair pid) (map_of (players st) pid) else None)"

definition create_game :: "memory_store \<Rightarrow> game \<Rightarrow> memory_store \<times> nat" where
  "create_game st g =
    (let gid = game_id_counter st + 1
     in (st\<lparr>game_id_counter := gid, games := AList.update gid g (games st)\<rparr>, gid))"

text \<open>
  \<open>normalize_team\<close> is the expression \<open>t.strip().lower() if t else ""\<close> that
  \<open>check_duplicate_game\<close> applies to all four team names; an absent name (\<open>None\<close>) is the
  empty string here.
\<close>

definition normalize_team :: "string \<Rightarrow> string" where
  "normalize_team t = (if t \<noteq> [] then lower (strip t) else [])"

definition is_duplicate_of :: "date \<Rightarrow> string \<Rightarrow> string \<Rightarrow> string \<Rightarrow> string \<Rightarrow> game \<Rightarrow> bool" where
  "is_duplicate_of d league season home away g =
    (game_date g = d \<and> game_league g = league \<and> game_season g = season \<and>
     ((normalize_team (home_team g) = normalize_team home \<and>
       normalize_team (away_team g) = normalize_team away) \<or>
      (normalize_team (home_team g) = normalize_team away \<and>
       normalize_team (away_team g) = normalize_team home)))"

definition check_duplicate_game ::
  "memory_store \<Rightarrow> date \<Rightarrow> string \<Rightarrow> string \<Rightarrow> string \<Rightarrow> string \<Rightarrow> (nat \<times> game) option" where
  "check_duplicate_game st d league season home away =
     find (\<lambda>(gid, g). is_duplicate_of d league season home away g) (games st)"

definition create_plate_appearance :: "memory_store \<Rightarrow> plate_appearance \<Rightarrow> memory_store \<times> nat" where
  "create_plate_appearance st pa =
    (let paid = plate_appearance_id_counter st + 1
     in (st\<lparr>plate_appearance_id_counter := paid,
            plate_appearances := AList.update paid pa (plate_appearances st)\<rparr>, paid))"

definition get_all_plate_appearances :: "memory_store \<Rightarrow> plate_appearance list" where
  "get_all_plate_appearances st = map snd (plate_appearances st)"

definition hitter_total_key :: "hitter_total \<Rightarrow> nat \<times> string \<times> string" where
  "hitter_total_key ht = (ht_player_id ht, ht_league ht, ht_season ht)"

definition create_or_update_hitter_total ::
  "memory_store \<Rightarrow> hitter_total \<Rightarrow> memory_store" where
  "create_or_update_hitter_total st ht =
    (let key = hitter_total_key ht
     in case map_of (hitter_total_index st) key of
          Some existing_id \<Rightarrow>
            if existing_id \<noteq> 0 \<and> map_of (hitter_totals st) existing_id \<noteq> None
            then st\<lparr>hitter_totals := AList.update existing_id ht (hitter_totals st)\<rparr>
            else
              (let hid = hitter_total_id_counter st + 1
               in st\<lparr>hitter_total_id_counter := hid,
                     hitter_totals := AList.update hid ht (hitter_totals st),
                     hitter_total_index := AList.update key hid (hitter_total_index st)\<rparr>)
        | None \<Rightarrow>
            (let hid = hitter_total_id_counter st + 1
             in st\<lparr>hitter_total_id_counter := hid,
                   hitter_totals := AList.update hid ht (hitter_totals st),
                   hitter_total_index := AList.update key hid (hitter_total_index st)\<rparr>))"

text \<open>
  \<open>get_hitter_total\<close> returns the stored object itself; the model returns its id with
  its value, so that a caller that mutates the object can write to the store.
\<close>

definition get_hitter_total ::
  "memory_store \<Rightarrow> nat \<Rightarrow> string \<Rightarrow> string \<Rightarrow> (nat \<times> hitter_total) option" where
  "get_hitter_total st pid league season =
    (case map_of (hitter_total_index st) (pid, league, season) of
       None \<Rightarrow> None
     | Some hid \<Rightarrow> if hid \<noteq> 0 then map_option (Pair hid) (map_of (hitter_totals st) hid) else None)"

text \<open>\<open>get_hitter_totals(league, season)\<close>; an empty or absent filter does not filter.\<close>

definition get_hitter_totals ::
  "memory_store \<Rightarrow> string option \<Rightarrow> string option \<Rightarrow> hitter_total list" where
  "get_hitter_totals st league season =
    (let totals = map snd (hitter_totals st);
         totals1 = (case league of
                      Some l \<Rightarrow> if l \<noteq> [] then filter (\<lambda>ht. ht_league ht = l) totals else totals
                    | None \<Rightarrow> totals)
     in case season of
          Some s \<Rightarrow> if s \<noteq> [] then filter (\<lambda>ht. ht_season ht = s) totals1 else totals1
        | None \<Rightarrow> totals1)"

section \<open>Aggregation (\<open>StatsService.recompute_hitter_totals\<close>)\<close>

record acc_stats =
  acc_counts :: counting
  acc_games :: "nat set"

definition empty_acc :: acc_stats where
  "empty_acc = \<lparr>acc_counts = zero_counting, acc_games = {}\<rparr>"

definition add_pa :: "acc_stats \<Rightarrow> plate_appearance \<Rightarrow> acc_stats" where
  "add_pa s pa = \<lparr>acc_counts = add_counting (acc_counts s) (pa_counts pa),
                  acc_games = insert (pa_game_id pa) (acc_games s)\<rparr>"

text \<open>
  The plate appearances whose game is stored with the given league and season. The
  code looks the game up in a dictionary of all games by id (\<open>get_games(limit=10000)\<close>
  returns every game), which is the store's own dictionary.
\<close>

definition relevant_pas :: "memory_store \<Rightarrow> string \<Rightarrow> string \<Rightarrow> plate_appearance list" where
  "relevant_pas st league season =
    filter (\<lambda>pa. case map_of (games st) (pa_game_id pa) of
                   None \<Rightarrow> False
                 | Some g \<Rightarrow> game_league g = league \<and> game_season g = season)
           (get_all_plate_appearances st)"

definition group_step ::
  "(nat \<times> acc_stats) list \<Rightarrow> plate_appearance \<Rightarrow> (nat \<times> acc_stats) list" where
  "group_step player_stats pa =
    (let stats = (case map_of player_stats (pa_player_id pa) of
                    None \<Rightarrow> empty_acc | Some s \<Rightarrow> s)
     in AList.update (pa_player_id pa) (add_pa stats pa) player_stats)"

definition group_by_player :: "plate_appearance list \<Rightarrow> (nat \<times> acc_stats) list" where
  "group_by_player pas = foldl group_step [] pas"

definition set_totals :: "hitter_total \<Rightarrow> acc_stats \<Rightarrow> hitter_total" where
  "set_totals ht stats = ht\<lparr>ht_games := card (acc_games stats), ht_counts := acc_counts stats\<rparr>"

text \<open>
  One turn of the loop over the players. A \<open>HitterTotal\<close> that exists is updated in
  place, so its new field values are in the store before \<open>create_or_update_hitter_total\<close>
  is called and also when \<open>compute_derived_stats\<close> raises; a new one reaches the store
  only through \<open>create_or_update_hitter_total\<close>.
\<close>

definition update_player_total ::
  "memory_store \<Rightarrow> string \<Rightarrow> string \<Rightarrow> nat \<Rightarrow> acc_stats \<Rightarrow> memory_store \<times> pyerror option" where
  "update_player_total st league season pid stats =
    (case get_hitter_total st pid league season of
       None \<Rightarrow>
         (case compute_derived_stats (set_totals (new_hitter_total pid league season) stats) of
            (ht, Some e) \<Rightarrow> (st, Some e)
          | (ht, None) \<Rightarrow> (create_or_update_hitter_total st ht, None))
     | Some (hid, old) \<Rightarrow>
         (case compute_derived_stats (set_totals old stats) of
            (ht, r) \<Rightarrow>
              (let st1 = st\<lparr>hitter_totals := AList.update hid ht (hitter_totals st)\<rparr>
               in case r of
                    Some e \<Rightarrow> (st1, Some e)
                  | None \<Rightarrow> (create_or_update_hitter_total st1 ht, None))))"

fun recompute_loop ::
  "memory_store \<Rightarrow> string \<Rightarrow> string \<Rightarrow> (nat \<times> acc_stats) list \<Rightarrow> memory_store \<times> pyerror option" where
  "recompute_loop st league season [] = (st, None)"
| "recompute_loop st league season ((pid, stats) # rest) =
     (case update_player_total st league season pid stats of
        (st1, Some e) \<Rightarrow> (st1, Some e)
      | (st1, None) \<Rightarrow> recompute_loop st1 league season rest)"

definition recompute_hitter_totals ::
  "memory_store \<Rightarrow> string \<Rightarrow> string \<Rightarrow> memory_store \<times> pyerror option" where
  "recompute_hitter_totals st league season =
     recompute_loop st league season (group_by_player (relevant_pas st league season))"

section \<open>CSV team detection and row parsing (\<open>app/services/ingest_service.py\<close>)\<close>

record player_stats =
  ps_player_name :: string
  ps_team :: string
  ps_counts :: counting

record team_data =
  team1_name :: string
  team2_name :: string
  team1_players :: "player_stats list"
  team2_players :: "player_stats list"
  team1_runs :: int
  team2_runs :: int
  td_winner :: "string option"

text \<open>\<open>strip_quotes v\<close> is \<open>v.strip().strip('"').strip("'")\<close>.\<close>

definition strip_quotes :: "string \<Rightarrow> string" where
  "strip_quotes v = strip_char (CHR 0x27) (strip_char (CHR 0x22) (strip v))"

text \<open>
  \<open>_safe_int\<close> on a string. \<open>int(float(...))\<close> raises \<open>ValueError\<close> on text that is no
  number, which both \<open>try\<close> blocks catch, and \<open>OverflowError\<close> on an infinity, which
  neither catches.
\<close>

definition safe_int :: "string \<Rightarrow> pyerror + int" where
  "safe_int v =
    (let str_value = strip_quotes v
     in if str_value = [] \<or> lower str_value = ''nan'' then Inr 0
        else (case ebind (py_float_of_str str_value) py_int_of_float of
                Inr n \<Rightarrow> Inr n
              | Inl e \<Rightarrow>
                  if e = ValueError then
                    (case first_number str_value of
                       None \<Rightarrow> Inr 0
                     | Some m \<Rightarrow>
                         (case ebind (py_float_of_str m) py_int_of_float of
                            Inr n \<Rightarrow> Inr n
                          | Inl e' \<Rightarrow> if e' = ValueError then Inr 0 else Inl e'))
                  else Inl e))"

definition has_batting_order :: "string \<Rightarrow> bool" where
  "has_batting_order line =
     (contains ''Batting Order'' line \<or> contains ''batting order'' (lower line))"

definition first_field :: "string \<Rightarrow> string" where
  "first_field line = (case split_on (CHR '','') line of [] \<Rightarrow> [] | p # ps \<Rightarrow> p)"

text \<open>The team name of a line of the first pass, if the line is a team header.\<close>

definition header_team :: "string \<Rightarrow> string option" where
  "header_team line =
    (if has_batting_order line then
       (let team_name = strip (strip_quotes (first_field line))
        in if team_name \<noteq> [] \<and> lower team_name \<noteq> ''batting order'' then Some team_name
           else None)
     else None)"

definition find_team_headers :: "string list \<Rightarrow> (nat \<times> string) list" where
  "find_team_headers lines =
     List.map_filter (\<lambda>(i, line). map_option (Pair i) (header_team line)) (enumerate 0 lines)"

text \<open>The fallback pass over the first 50 lines, tried when fewer than two headers were found.\<close>

definition potential_team :: "string list \<Rightarrow> string list \<Rightarrow> nat \<times> string \<Rightarrow> (nat \<times> string) option" where
  "potential_team lines teams il =
    (case il of (i, line) \<Rightarrow>
      if strip line \<noteq> [] \<and> CHR '','' \<in> set line then
        (let first_col = strip_quotes (first_field line)
         in if first_col \<noteq> [] \<and> 2 < length first_col \<and> length first_col < 50 \<and>
               \<not> isdigit (filter (\<lambda>c. c \<noteq> CHR '' '') first_col) \<and>
               lower first_col \<notin> set [''player'', ''name'', ''batting order'', ''team''] \<and>
               i + 1 < length lines \<and>
               CHR '','' \<in> set (lines ! (i + 1)) \<and> list_ex is_digit (lines ! (i + 1)) \<and>
               first_col \<notin> set teams
            then Some (i, first_col) else None)
      else None)"

definition find_potential_teams :: "string list \<Rightarrow> string list \<Rightarrow> (nat \<times> string) list" where
  "find_potential_teams lines teams =
     List.map_filter (potential_team lines teams) (enumerate 0 (take 50 lines))"

text \<open>The team headers after both passes: line index and team name, in the order used.\<close>

definition detect_team_sections :: "string list \<Rightarrow> (nat \<times> string) list" where
  "detect_team_sections lines =
    (let found = find_team_headers lines
     in if length found < 2 then
          (let potential = find_potential_teams lines (map snd found)
           in if 2 \<le> length potential then take 2 potential
              else if length potential = 1 \<and> length found = 1 then found @ potential
              else found)
        else found)"

definition looks_like_header :: "string \<Rightarrow> bool" where
  "looks_like_header line =
     (list_ex (\<lambda>header. contains header (lower line)) [''player'', ''name'', ''ab'', ''avg'', ''slg'']
      \<and> \<not> list_ex is_digit line)"

definition split_values :: "string \<Rightarrow> string list" where
  "split_values line = map strip_quotes (split_on (CHR '','') line)"

text \<open>
  The body of the loop of \<open>_parse_hittrax_team_section\<close> for one line: the player row
  it appends, if any. An \<open>OverflowError\<close> of \<open>_safe_int\<close> is not caught by the
  \<open>except (ValueError, IndexError)\<close> of the loop and leaves the parser.
\<close>

definition parse_hittrax_line :: "string \<Rightarrow> string \<Rightarrow> pyerror + player_stats option" where
  "parse_hittrax_line team_name line =
    (if strip line = [] then Inr None
     else if has_batting_order line then Inr None
     else if looks_like_header line then Inr None
     else
       (let values = split_values line
        in if length values < 10 then Inr None
           else if values ! 0 = [] \<or>
                   lower (values ! 0) \<in> set [''player'', ''name'', ''team'', ''batting order'']
           then Inr None
           else
             (case
                ebind (safe_int (values ! 2)) (\<lambda>ab.
                ebind (safe_int (values ! 3)) (\<lambda>r.
                ebind (safe_int (values ! 4)) (\<lambda>h.
                ebind (safe_int (values ! 6)) (\<lambda>doubles.
                ebind (safe_int (values ! 7)) (\<lambda>triples.
                ebind (safe_int (values ! 8)) (\<lambda>hr.
                ebind (safe_int (values ! 9)) (\<lambda>rbi.
                ebind (if 11 < length values then safe_int (values ! 11) else Inr 0) (\<lambda>so.
                ebind (if 13 < length values then safe_int (values ! 13) else Inr 0) (\<lambda>bb.
                  Inr \<lparr>ps_player_name = strip (values ! 0), ps_team = team_name,
                       ps_counts = \<lparr>c_AB = ab, c_H = h, c_double = doubles, c_triple = triples,
                         c_HR = hr, c_BB = bb, c_HBP = 0, c_SF = 0, c_SH = 0, c_K = so,
                         c_R = r, c_RBI = rbi, c_SB = 0, c_CS = 0\<rparr>\<rparr>)))))))))
              of
                Inl e \<Rightarrow> if e = ValueError then Inr None else Inl e
              | Inr ps \<Rightarrow>
                  if ps_player_name ps \<noteq> [] \<and> ps_player_name ps \<noteq> ''Unknown'' \<and>
                     (0 < c_AB (ps_counts ps) \<or> 0 < c_H (ps_counts ps) \<or> 0 < c_R (ps_counts ps))
                  then Inr (Some ps) else Inr None)))"

text \<open>The player row that a line contributes to a roster, if it contributes one.\<close>

definition line_row :: "string \<Rightarrow> string \<Rightarrow> player_stats option" where
  "line_row team_name line =
     (case parse_hittrax_line team_name line of Inl e \<Rightarrow> None | Inr row \<Rightarrow> row)"

fun parse_hittrax_team_section :: "string list \<Rightarrow> string \<Rightarrow> pyerror + player_stats list" where
  "parse_hittrax_team_section [] team_name = Inr []"
| "parse_hittrax_team_section (line # lines) team_name =
     (case parse_hittrax_line team_name line of
        Inl e \<Rightarrow> Inl e
      | Inr row \<Rightarrow>
          (case parse_hittrax_team_section lines team_name of
             Inl e \<Rightarrow> Inl e
           | Inr found \<Rightarrow> Inr ((case row of None \<Rightarrow> [] | Some ps \<Rightarrow> [ps]) @ found)))"

definition pick_winner :: "string \<Rightarrow> int \<Rightarrow> string \<Rightarrow> int \<Rightarrow> string option" where
  "pick_winner name1 runs1 name2 runs2 =
     (if runs2 < runs1 then Some name1 else if runs1 < runs2 then Some name2 else None)"

text \<open>The two rosters as slices of the lines: \<open>lines[a:b]\<close> is \<open>drop a (take b lines)\<close>.\<close>

definition team1_lines :: "string list \<Rightarrow> nat \<Rightarrow> nat \<Rightarrow> string list" where
  "team1_lines lines section1 section2 = drop (section1 + 1) (take section2 lines)"

definition team2_lines :: "string list \<Rightarrow> nat \<Rightarrow> string list" where
  "team2_lines lines section2 = drop (section2 + 1) lines"

definition detect_teams_from_hittrax_format :: "string \<Rightarrow> pyerror + team_data" where
  "detect_teams_from_hittrax_format text =
    (let lines = splitlines text; sections = detect_team_sections lines
     in case sections of
          (s1, name1) # (s2, name2) # others \<Rightarrow>
            ebind (parse_hittrax_team_section (team1_lines lines s1 s2) name1) (\<lambda>players1.
            ebind (parse_hittrax_team_section (team2_lines lines s2) name2) (\<lambda>players2.
              if players1 = [] \<or> players2 = []
              then Inl (NoPlayersError name1 (length players1) name2 (length players2))
              else
                (let runs1 = sum_list (map (\<lambda>p. c_R (ps_counts p)) players1);
                     runs2 = sum_list (map (\<lambda>p. c_R (ps_counts p)) players2)
                 in Inr \<lparr>team1_name = name1, team2_name = name2,
                         team1_players = players1, team2_players = players2,
                         team1_runs = runs1, team2_runs = runs2,
                         td_winner = pick_winner name1 runs1 name2 runs2\<rparr>)))
        | _ \<Rightarrow> Inl (TeamCountError (length sections) (map snd sections)))"

subsection \<open>Flat layout: a table with a team column\<close>

text \<open>
  The flat layout is read by \<open>pandas.read_csv\<close>, which is not part of the program. Its
  result is modelled as a table: the column names and the rows, a row holding one cell
  per column. A cell is missing (\<open>NaN\<close>), an integer or a string. \<open>astype_str\<close> is
  \<open>astype(str)\<close> on one cell of an integer column or of a text column, and \<open>the_cell\<close>
  reads the cell of a column in a row, for a column name that occurs once.

  The renaming of the columns can give two columns the same name. Then \<open>df[name]\<close> is a
  table and \<open>row.get(name)\<close> a series, and the program fails where it uses them as a
  column or as a value: \<open>df['team'].astype(str).str\<close> raises \<open>AttributeError\<close>, the \<open>int\<close>
  of the sums of several \<open>r\<close> columns raises \<open>TypeError\<close>, and \<open>_safe_int\<close> of a series
  raises \<open>ValueError\<close>. These failures are part of the model. Two \<open>player\<close> columns are
  not: the name of a row would be the printed form of a series.
\<close>

datatype cell = CNaN | CInt int | CStr string

record dataframe =
  df_columns :: "string list"
  df_rows :: "cell list list"

definition empty_dataframe :: dataframe where
  "empty_dataframe = \<lparr>df_columns = [], df_rows = []\<rparr>"

definition digit_char :: "nat \<Rightarrow> char" where
  "digit_char d = char_of (48 + d)"

fun show_nat :: "nat \<Rightarrow> string" where
  "show_nat n = (if n < 10 then [digit_char n] else show_nat (n div 10) @ [digit_char (n mod 10)])"

definition show_int :: "int \<Rightarrow> string" where
  "show_int i = (if i < 0 then CHR ''-'' # show_nat (nat (- i)) else show_nat (nat i))"

definition astype_str :: "cell \<Rightarrow> string" where
  "astype_str c = (case c of CNaN \<Rightarrow> ''nan'' | CInt n \<Rightarrow> show_int n | CStr s \<Rightarrow> s)"

definition the_cell :: "string list \<Rightarrow> cell list \<Rightarrow> string \<Rightarrow> cell" where
  "the_cell cols row name = (case map_of (zip cols row) name of Some c \<Rightarrow> c | None \<Rightarrow> CNaN)"

definition column_cells :: "dataframe \<Rightarrow> string \<Rightarrow> cell list" where
  "column_cells df name = map (\<lambda>row. the_cell (df_columns df) row name) (df_rows df)"

definition normalize_column_name :: "string \<Rightarrow> string" where
  "normalize_column_name col =
    (let col_lower = strip (lower col)
     in if col_lower \<in> set [''player'', ''name'', ''player name'', ''player_name'', ''batter'', ''hitter'']
        then ''player''
        else if col_lower \<in> set [''team'', ''team name'', ''team_name''] then ''team''
        else if col_lower \<in> set [''ab'', ''at bats'', ''at-bats'', ''at_bats''] then ''ab''
        else if col_lower \<in> set [''h'', ''hits'', ''hit''] then ''h''
        else if col_lower \<in> set [''2b'', ''double'', ''doubles'', ''2 b''] then ''doubles''
        else if col_lower \<in> set [''3b'', ''triple'', ''triples'', ''3 b''] then ''triples''
        else if col_lower \<in> set [''hr'', ''home runs'', ''homeruns'', ''home_run'', ''homer''] then ''hr''
        else if col_lower \<in> set [''rbi'', ''runs batted in'', ''runs_batted_in''] then ''rbi''
        else if col_lower \<in> set [''bb'', ''walks'', ''walk'', ''base on balls''] then ''bb''
        else if col_lower \<in> set [''so'', ''k'', ''strikeouts'', ''strikeout'', ''strike outs''] then ''so''
        else if col_lower \<in> set [''r'', ''runs'', ''run''] then ''r''
        else if col_lower \<in> set [''hbp'', ''hit by pitch'', ''hit_by_pitch''] then ''hbp''
        else if col_lower \<in> set [''sf'', ''sacrifice fly'', ''sac_fly''] then ''sf''
        else if col_lower \<in> set [''sh'', ''sacrifice hit'', ''sacrifice bunt'', ''sac_bunt''] then ''sh''
        else if col_lower \<in> set [''sb'', ''stolen bases'', ''stolen_base''] then ''sb''
        else if col_lower \<in> set [''cs'', ''caught stealing'', ''caught_stealing''] then ''cs''
        else col_lower)"

text \<open>The renaming of the columns that follows every \<open>read_csv\<close>.\<close>

definition normalize_columns :: "dataframe \<Rightarrow> dataframe" where
  "normalize_columns df = df\<lparr>df_columns := map (\<lambda>col. normalize_column_name (strip col)) (df_columns df)\<rparr>"

text \<open>\<open>Series.unique()\<close> keeps the first occurrence of each value, in order.\<close>

definition unique :: "'a list \<Rightarrow> 'a list" where
  "unique xs = rev (remdups (rev xs))"

definition team_label :: "cell \<Rightarrow> string" where
  "team_label c = strip (astype_str c)"

text \<open>\<open>df['team'].dropna().astype(str).str.strip().unique().tolist()\<close>\<close>

definition team_values :: "dataframe \<Rightarrow> string list" where
  "team_values df = unique (map team_label (filter (\<lambda>c. c \<noteq> CNaN) (column_cells df ''team'')))"

text \<open>
  \<open>row_label\<close> is the value of \<open>df['team'].astype(str).str.strip()\<close> at a row, and
  \<open>rows_of_team df name\<close> is \<open>df[df['team'].astype(str).str.strip() == name]\<close>.
\<close>

definition row_label :: "dataframe \<Rightarrow> cell list \<Rightarrow> string" where
  "row_label df row = team_label (the_cell (df_columns df) row ''team'')"

definition rows_of_team :: "dataframe \<Rightarrow> string \<Rightarrow> dataframe" where
  "rows_of_team df name = df\<lparr>df_rows := filter (\<lambda>row. row_label df row = name) (df_rows df)\<rparr>"






definition cell_to_float :: "cell \<Rightarrow> pyerror + pyfloat" where
  "cell_to_float c = (case c of
      CNaN \<Rightarrow> Inr (Fin 0)
    | CInt n \<Rightarrow> Inr (nearest_double (of_int n))
    | CStr s \<Rightarrow> py_float_of_str s)"

fun float_sum :: "pyfloat \<Rightarrow> cell list \<Rightarrow> pyerror + pyfloat" where
  "float_sum acc [] = Inr acc"
| "float_sum acc (c # cs) =
     (case cell_to_float c of Inl e \<Rightarrow> Inl e | Inr x \<Rightarrow> float_sum (py_fadd acc x) cs)"

text \<open>The cells of a row under all the columns of a name.\<close>

definition cells_named :: "string list \<Rightarrow> cell list \<Rightarrow> string \<Rightarrow> cell list" where
  "cells_named cols row name = map snd (filter (\<lambda>(col, c). col = name) (zip cols row))"

text \<open>
  \<open>int(df['r'].fillna(0).astype(float).sum()) if 'r' in df.columns else 0\<close>, the sum
  taken from the first row to the last. With several \<open>r\<close> columns \<open>astype(float)\<close>
  converts the cells of all of them, \<open>sum()\<close> is a series of their sums, and \<open>int\<close> of
  a series of more than one value raises \<open>TypeError\<close>.
\<close>

definition runs_scored :: "dataframe \<Rightarrow> pyerror + int" where
  "runs_scored df =
    (if ''r'' \<in> set (df_columns df) then
       (if 1 < count_list (df_columns df) ''r'' then
          (if list_all (\<lambda>row. list_all (\<lambda>c. \<not> isl (cell_to_float c))
                                  (cells_named (df_columns df) row ''r'')) (df_rows df)
           then Inl TypeError else Inl ValueError)
        else ebind (float_sum (Fin 0) (column_cells df ''r'')) py_int_of_float)
     else Inr 0)"

record flat_teams =
  ft_team1_name :: string
  ft_team2_name :: string
  ft_team1_df :: dataframe
  ft_team2_df :: dataframe
  ft_team1_runs :: int
  ft_team2_runs :: int
  ft_winner :: "string option"

text \<open>The team values that count: \<open>[t for t in unique_teams if t and t.lower() != 'nan']\<close>\<close>

definition unique_teams :: "dataframe \<Rightarrow> string list" where
  "unique_teams df = filter (\<lambda>t. t \<noteq> [] \<and> lower t \<noteq> ''nan'') (team_values df)"

text \<open>
  With several \<open>team\<close> columns the first use of \<open>df['team']\<close> as a column raises
  \<open>AttributeError\<close>.
\<close>

definition detect_teams_from_csv :: "dataframe \<Rightarrow> pyerror + flat_teams" where
  "detect_teams_from_csv df =
    (if ''team'' \<notin> set (df_columns df) then Inl MissingTeamColumn
     else if 1 < count_list (df_columns df) ''team'' then Inl AttributeError
     else
       (let teams = unique_teams df
        in if length teams < 2 then Inl (TeamCountError (length teams) teams)
           else if 2 < length teams
           then Inl (TeamCountError (length teams) teams)
           else
             (let name1 = strip (teams ! 0);
                  name2 = strip (teams ! 1);
                  df1 = rows_of_team df name1;
                  df2 = rows_of_team df name2
              in ebind (runs_scored df1) (\<lambda>runs1.
                 ebind (runs_scored df2) (\<lambda>runs2.
                   Inr \<lparr>ft_team1_name = name1, ft_team2_name = name2,
                        ft_team1_df = df1, ft_team2_df = df2,
                        ft_team1_runs = runs1, ft_team2_runs = runs2,
                        ft_winner = pick_winner name1 runs1 name2 runs2\<rparr>)))))"

text \<open>
  \<open>_safe_int\<close> on what \<open>row.get(column, 0)\<close> returns: the default, or a cell, which is an
  \<open>int\<close> and returned as it is, or a string; \<open>row_stat\<close> adds the case of several columns
  of the name, where \<open>row.get\<close> returns a series and \<open>pd.isna(value) or value is None\<close>
  raises \<open>ValueError\<close>.
\<close>

definition safe_int_cell :: "cell option \<Rightarrow> pyerror + int" where
  "safe_int_cell v = (case v of
      None \<Rightarrow> Inr 0
    | Some CNaN \<Rightarrow> Inr 0
    | Some (CInt n) \<Rightarrow> Inr n
    | Some (CStr s) \<Rightarrow> safe_int s)"

definition row_get :: "string list \<Rightarrow> cell list \<Rightarrow> string \<Rightarrow> cell option" where
  "row_get cols row name = (if name \<in> set cols then Some (the_cell cols row name) else None)"

definition row_stat :: "string list \<Rightarrow> cell list \<Rightarrow> string \<Rightarrow> pyerror + int" where
  "row_stat cols row name =
    (if 1 < count_list cols name then Inl ValueError else safe_int_cell (row_get cols row name))"

definition parse_player_row :: "string list \<Rightarrow> cell list \<Rightarrow> string \<Rightarrow> pyerror + player_stats" where
  "parse_player_row cols row team =
    (let name = strip (case row_get cols row ''player'' of
                         None \<Rightarrow> ''Unknown'' | Some c \<Rightarrow> astype_str c)
     in ebind (row_stat cols row ''ab'') (\<lambda>ab.
        ebind (row_stat cols row ''h'') (\<lambda>h.
        ebind (row_stat cols row ''doubles'') (\<lambda>doubles.
        ebind (row_stat cols row ''triples'') (\<lambda>triples.
        ebind (row_stat cols row ''hr'') (\<lambda>hr.
        ebind (row_stat cols row ''rbi'') (\<lambda>rbi.
        ebind (row_stat cols row ''bb'') (\<lambda>bb.
        ebind (row_stat cols row ''so'') (\<lambda>so.
        ebind (row_stat cols row ''r'') (\<lambda>r.
        ebind (row_stat cols row ''hbp'') (\<lambda>hbp.
        ebind (row_stat cols row ''sf'') (\<lambda>sf.
        ebind (row_stat cols row ''sh'') (\<lambda>sh.
        ebind (row_stat cols row ''sb'') (\<lambda>sb.
        ebind (row_stat cols row ''cs'') (\<lambda>cs.
          Inr \<lparr>ps_player_name = name, ps_team = team,
               ps_counts = \<lparr>c_AB = ab, c_H = h, c_double = doubles, c_triple = triples,
                 c_HR = hr, c_BB = bb, c_HBP = hbp, c_SF = sf, c_SH = sh, c_K = so,
                 c_R = r, c_RBI = rbi, c_SB = sb, c_CS = cs\<rparr>\<rparr>)))))))))))))))"

definition parse_dataframe_rows :: "dataframe \<Rightarrow> string \<Rightarrow> (pyerror + player_stats) list" where
  "parse_dataframe_rows df team = map (\<lambda>row. parse_player_row (df_columns df) row team) (df_rows df)"

section \<open>Ingestion (\<open>IngestService.ingest_game_csv\<close>) and upload (\<open>upload_csv\<close>)\<close>

text \<open>
  An optional team name counts as supplied when it is neither \<open>None\<close> nor empty
  (\<open>not home_team\<close> is true for both).
\<close>

definition supplied :: "string option \<Rightarrow> bool" where
  "supplied t = (case t of None \<Rightarrow> False | Some s \<Rightarrow> s \<noteq> [])"

definition is_hittrax_format :: "string \<Rightarrow> bool" where
  "is_hittrax_format text = contains ''Batting Order'' text"

text \<open>
  What the first half of \<open>ingest_game_csv\<close> determines before anything is stored: the
  two team names, the score, the winner, and for each team the rows to ingest and the
  length of its table. On the flat paths a row is parsed inside the loop that stores
  it, so the rows are carried as results of \<open>_parse_player_row\<close>. \<open>csv_table\<close> is what
  \<open>pd.read_csv\<close> returns for the text, or the exception it raises.
\<close>

record parsed_game =
  pg_home_team :: string
  pg_away_team :: string
  pg_home_score :: int
  pg_away_score :: int
  pg_winner :: "string option"
  pg_team1_rows :: "(pyerror + player_stats) list"
  pg_team2_rows :: "(pyerror + player_stats) list"
  pg_team1_count :: nat
  pg_team2_count :: nat

definition parse_hittrax_upload :: "string \<Rightarrow> pyerror + parsed_game" where
  "parse_hittrax_upload text =
    ebind (detect_teams_from_hittrax_format text) (\<lambda>td.
      Inr \<lparr>pg_home_team = team1_name td, pg_away_team = team2_name td,
           pg_home_score = team1_runs td, pg_away_score = team2_runs td,
           pg_winner = td_winner td,
           pg_team1_rows = map Inr (team1_players td),
           pg_team2_rows = map Inr (team2_players td),
           pg_team1_count = length (team1_players td),
           pg_team2_count = length (team2_players td)\<rparr>)"

definition parse_flat_upload :: "pyerror + dataframe \<Rightarrow> pyerror + parsed_game" where
  "parse_flat_upload csv_table =
    ebind csv_table (\<lambda>raw.
    ebind (detect_teams_from_csv (normalize_columns raw)) (\<lambda>ft.
      Inr \<lparr>pg_home_team = ft_team1_name ft, pg_away_team = ft_team2_name ft,
           pg_home_score = ft_team1_runs ft, pg_away_score = ft_team2_runs ft,
           pg_winner = ft_winner ft,
           pg_team1_rows = parse_dataframe_rows (ft_team1_df ft) (ft_team1_name ft),
           pg_team2_rows = parse_dataframe_rows (ft_team2_df ft) (ft_team2_name ft),
           pg_team1_count = length (df_rows (ft_team1_df ft)),
           pg_team2_count = length (df_rows (ft_team2_df ft))\<rparr>))"

text \<open>
  Manual team assignment, taken when both names are supplied: the rows of a team are
  those of its name if the name occurs in the team column; otherwise the home team
  gets the whole table and the away team an empty one. Several \<open>team\<close> columns raise
  \<open>AttributeError\<close> here too.
\<close>

definition manual_team_tables ::
  "dataframe \<Rightarrow> string \<Rightarrow> string \<Rightarrow> pyerror + dataframe \<times> dataframe" where
  "manual_team_tables df home away =
    (if ''team'' \<in> set (df_columns df) then
       (if 1 < count_list (df_columns df) ''team'' then Inl AttributeError
        else
          (let team_names = team_values df
           in Inr (if home \<in> set team_names then rows_of_team df home else df,
                   if away \<in> set team_names then rows_of_team df away else empty_dataframe)))
     else Inr (df, empty_dataframe))"

definition parse_manual_upload ::
  "pyerror + dataframe \<Rightarrow> string \<Rightarrow> string \<Rightarrow> pyerror + parsed_game" where
  "parse_manual_upload csv_table home away =
    ebind csv_table (\<lambda>raw.
    ebind (manual_team_tables (normalize_columns raw) home away) (\<lambda>(df1, df2).
    ebind (runs_scored df1) (\<lambda>score1.
    ebind (runs_scored df2) (\<lambda>score2.
      Inr \<lparr>pg_home_team = home, pg_away_team = away,
           pg_home_score = score1, pg_away_score = score2,
           pg_winner = pick_winner home score1 away score2,
           pg_team1_rows = parse_dataframe_rows df1 home,
           pg_team2_rows = parse_dataframe_rows df2 away,
           pg_team1_count = length (df_rows df1),
           pg_team2_count = length (df_rows df2)\<rparr>))))"

definition parse_upload ::
  "string \<Rightarrow> pyerror + dataframe \<Rightarrow> string option \<Rightarrow> string option \<Rightarrow> pyerror + parsed_game" where
  "parse_upload text csv_table home away =
    (if \<not> supplied home \<or> \<not> supplied away then
       (if is_hittrax_format text then parse_hittrax_upload text
        else parse_flat_upload csv_table)
     else parse_manual_upload csv_table (the home) (the away))"

text \<open>
  One turn of a loop over the rows of a team: skip a row without a usable name, find
  or create the player, create the plate appearance. The result counts the row.
\<close>

definition ingest_player_row ::
  "memory_store \<Rightarrow> nat \<Rightarrow> string \<Rightarrow> string \<Rightarrow> player_stats \<Rightarrow> memory_store \<times> nat" where
  "ingest_player_row st gid team league ps =
    (if ps_player_name ps = [] \<or> ps_player_name ps = ''Unknown'' then (st, 0)
     else
       (case (case get_player_by_name_team st (ps_player_name ps) team of
                Some (pid, p) \<Rightarrow> (st, pid)
              | None \<Rightarrow> create_player st \<lparr>player_name = ps_player_name ps, player_team = team,
                                          player_league = Some league\<rparr>) of
          (st1, pid) \<Rightarrow>
            (fst (create_plate_appearance st1
                    \<lparr>pa_game_id = gid, pa_player_id = pid, pa_team = team,
                     pa_counts = ps_counts ps\<rparr>), 1)))"

fun ingest_rows ::
  "memory_store \<Rightarrow> nat \<Rightarrow> string \<Rightarrow> string \<Rightarrow> (pyerror + player_stats) list
     \<Rightarrow> memory_store \<times> (pyerror + nat)" where
  "ingest_rows st gid team league [] = (st, Inr 0)"
| "ingest_rows st gid team league (Inl e # rows) = (st, Inl e)"
| "ingest_rows st gid team league (Inr ps # rows) =
     (case ingest_player_row st gid team league ps of
        (st1, k) \<Rightarrow>
          (case ingest_rows st1 gid team league rows of
             (st2, Inl e) \<Rightarrow> (st2, Inl e)
           | (st2, Inr n) \<Rightarrow> (st2, Inr (k + n))))"

record game_info =
  gi_home_team :: string
  gi_away_team :: string
  gi_home_score :: int
  gi_away_score :: int
  gi_winner :: "string option"
  gi_team1_player_count :: nat
  gi_team2_player_count :: nat

record ingest_result =
  rows_ingested :: nat
  new_game_id :: nat
  info :: game_info

text \<open>The second half of \<open>ingest_game_csv\<close>: the game, then the rows of both teams.\<close>

definition persist_game ::
  "memory_store \<Rightarrow> string \<Rightarrow> string \<Rightarrow> date \<Rightarrow> parsed_game
     \<Rightarrow> memory_store \<times> (pyerror + ingest_result)" where
  "persist_game st league season d pg =
    (case create_game st
            \<lparr>game_league = league, game_season = season, game_date = d,
             home_team = pg_home_team pg, away_team = pg_away_team pg,
             home_score = pg_home_score pg, away_score = pg_away_score pg,
             winner = pg_winner pg\<rparr> of
       (st1, gid) \<Rightarrow>
         (case ingest_rows st1 gid (pg_home_team pg) league (pg_team1_rows pg) of
            (st2, Inl e) \<Rightarrow> (st2, Inl e)
          | (st2, Inr n1) \<Rightarrow>
              (case ingest_rows st2 gid (pg_away_team pg) league (pg_team2_rows pg) of
                 (st3, Inl e) \<Rightarrow> (st3, Inl e)
               | (st3, Inr n2) \<Rightarrow>
                   (st3, Inr \<lparr>rows_ingested = n1 + n2, new_game_id = gid,
                       info = \<lparr>gi_home_team = pg_home_team pg, gi_away_team = pg_away_team pg,
                         gi_home_score = pg_home_score pg, gi_away_score = pg_away_score pg,
                         gi_winner = pg_winner pg,
                         gi_team1_player_count = pg_team1_count pg,
                         gi_team2_player_count = pg_team2_count pg\<rparr>\<rparr>))))"

definition ingest_game_csv ::
  "memory_store \<Rightarrow> string \<Rightarrow> pyerror + dataframe \<Rightarrow> string \<Rightarrow> string \<Rightarrow> date
     \<Rightarrow> string option \<Rightarrow> string option \<Rightarrow> memory_store \<times> (pyerror + ingest_result)" where
  "ingest_game_csv st text csv_table league season d home away =
    (case parse_upload text csv_table home away of
       Inl e \<Rightarrow> (st, Inl e)
     | Inr pg \<Rightarrow> persist_game st league season d pg)"

text \<open>
  The team names that \<open>upload_csv\<close> passes to the duplicate check: the supplied ones,
  or those detected from the file when one of them is missing.
\<close>

definition detect_team_names ::
  "string \<Rightarrow> pyerror + dataframe \<Rightarrow> string option \<Rightarrow> string option \<Rightarrow> pyerror + string \<times> string" where
  "detect_team_names text csv_table home away =
    (if \<not> supplied home \<or> \<not> supplied away then
       (if is_hittrax_format text
        then ebind (detect_teams_from_hittrax_format text) (\<lambda>td.
               Inr (team1_name td, team2_name td))
        else ebind csv_table (\<lambda>raw.
             ebind (detect_teams_from_csv (normalize_columns raw)) (\<lambda>ft.
               Inr (ft_team1_name ft, ft_team2_name ft))))
     else Inr (the home, the away))"

text \<open>
  The upload route, from the parsed date on: detect the teams, reject a duplicate,
  ingest, recompute the totals of the league and season. The result is the store
  afterwards and either the exception that ended the request or the new game's id
  with the number of rows ingested.
\<close>

definition upload_csv ::
  "memory_store \<Rightarrow> string \<Rightarrow> pyerror + dataframe \<Rightarrow> string \<Rightarrow> string \<Rightarrow> date
     \<Rightarrow> string option \<Rightarrow> string option \<Rightarrow> memory_store \<times> (pyerror + nat \<times> nat)" where
  "upload_csv st text csv_table league season d home away =
    (case detect_team_names text csv_table home away of
       Inl e \<Rightarrow> (st, Inl e)
     | Inr (detected_home, detected_away) \<Rightarrow>
         (case check_duplicate_game st d league season detected_home detected_away of
            Some (gid, existing) \<Rightarrow> (st, Inl (DuplicateGame gid))
          | None \<Rightarrow>
              (case ingest_game_csv st text csv_table league season d
                      (if supplied home then home else None)
                      (if supplied away then away else None) of
                 (st1, Inl e) \<Rightarrow> (st1, Inl e)
               | (st1, Inr res) \<Rightarrow>
                   (case recompute_hitter_totals st1 league season of
                      (st2, Some e) \<Rightarrow> (st2, Inl e)
                    | (st2, None) \<Rightarrow> (st2, Inr (new_game_id res, rows_ingested res))))))"

text \<open>The store states that uploads can produce, starting from the empty store.\<close>

inductive reachable :: "memory_store \<Rightarrow> bool" where
  reachable_empty: "reachable empty_store"
| reachable_upload:
    "reachable st \<Longrightarrow>
     upload_csv st text csv_table league season d home away = (st', r) \<Longrightarrow> reachable st'"

section \<open>Invariants of the store\<close>

text \<open>
  \<open>stored_player_key\<close> is the normalised (name, team) pair of a stored player, the key
  under which \<open>create_player\<close> indexes it. \<open>player_index_ok\<close> says that the player ids are
  distinct, positive and at most the counter, and that the index maps the key of every
  stored player to its id. \<open>same_players\<close> relates two stores with the same players, the
  same counter and the same index.
\<close>

definition stored_player_key :: "nat \<times> player \<Rightarrow> string \<times> string" where
  "stored_player_key e = player_key (player_name (snd e)) (player_team (snd e))"

definition player_index_ok :: "memory_store \<Rightarrow> bool" where
  "player_index_ok st \<longleftrightarrow>
     distinct (map fst (players st)) \<and>
     list_all (\<lambda>(pid, p). pid \<noteq> 0 \<and> pid \<le> player_id_counter st \<and>
                map_of (player_index st) (player_key (player_name p) (player_team p)) = Some pid)
       (players st)"

definition same_players :: "memory_store \<Rightarrow> memory_store \<Rightarrow> bool" where
  "same_players st st' \<longleftrightarrow>
     players st' = players st \<and> player_id_counter st' = player_id_counter st \<and>
     player_index st' = player_index st"
section \<open>Duplicate-game detection\<close>

lemma find_Some_ex:
  assumes "x \<in> set xs" "P x"
  shows "\<exists>y. find P xs = Some y \<and> y \<in> set xs \<and> P y"
  using assms by (induction xs) auto

text \<open>
  Claim C4. If a game with date \<open>d\<close>, league, season, home team \<open>b\<close> and away team \<open>a\<close>
  (up to case and surrounding whitespace) is stored, the duplicate check for the same
  date, league and season with home team \<open>a\<close> and away team \<open>b\<close> returns a stored game
  with that date, league, season and the same two normalised team names in one of the
  two orders, and every upload whose teams are \<open>a\<close> and \<open>b\<close> is rejected with that game
  and leaves the store as it was.
\<close>

theorem duplicate_check_symmetric:
  assumes stored: "(gid, g) \<in> set (games st)"
    and key: "game_date g = d" "game_league g = league" "game_season g = season"
    and home: "normalize_team (home_team g) = normalize_team b"
    and away: "normalize_team (away_team g) = normalize_team a"
  shows "\<exists>gid' g'. check_duplicate_game st d league season a b = Some (gid', g') \<and>
           (gid', g') \<in> set (games st) \<and>
           game_date g' = d \<and> game_league g' = league \<and> game_season g' = season \<and>
           ((normalize_team (home_team g') = normalize_team b \<and>
             normalize_team (away_team g') = normalize_team a) \<or>
            (normalize_team (home_team g') = normalize_team a \<and>
             normalize_team (away_team g') = normalize_team b)) \<and>
           (\<forall>text csv_table home away.
              detect_team_names text csv_table home away = Inr (a, b) \<longrightarrow>
              upload_csv st text csv_table league season d home away
                = (st, Inl (DuplicateGame gid')))"
proof -
  have dup: "is_duplicate_of d league season a b g"
    using key home away by (simp add: is_duplicate_of_def)
  from find_Some_ex [of "(gid, g)" "games st" "\<lambda>(i, x). is_duplicate_of d league season a b x"]
    stored dup
  obtain y where y: "check_duplicate_game st d league season a b = Some y"
    "y \<in> set (games st)" "case y of (i, x) \<Rightarrow> is_duplicate_of d league season a b x"
    by (auto simp: check_duplicate_game_def)
  obtain gid' g' where yy: "y = (gid', g')" by (cases y)
  have up: "\<forall>text csv_table home away.
              detect_team_names text csv_table home away = Inr (a, b) \<longrightarrow>
              upload_csv st text csv_table league season d home away
                = (st, Inl (DuplicateGame gid'))"
    using y(1) yy by (simp add: upload_csv_def)
  from y yy up show ?thesis
    by (auto simp: is_duplicate_of_def)
qed

theorem duplicate_check_symmetric_witness:
  "\<exists>gid' g'.
     check_duplicate_game
       (empty_store\<lparr>games := [(1, \<lparr>game_league = ''L'', game_season = ''2024'',
          game_date = (2024, 1, 15), home_team = ''Lions '', away_team = ''Tigers'',
          home_score = 3, away_score = 2, winner = Some ''Lions ''\<rparr>)]\<rparr>)
       (2024, 1, 15) ''L'' ''2024'' '' tigers'' ''LIONS'' = Some (gid', g') \<and>
     upload_csv
       (empty_store\<lparr>games := [(1, \<lparr>game_league = ''L'', game_season = ''2024'',
          game_date = (2024, 1, 15), home_team = ''Lions '', away_team = ''Tigers'',
          home_score = 3, away_score = 2, winner = Some ''Lions ''\<rparr>)]\<rparr>)
       [] (Inl ValueError) ''L'' ''2024'' (2024, 1, 15) (Some '' tigers'') (Some ''LIONS'')
     = (empty_store\<lparr>games := [(1, \<lparr>game_league = ''L'', game_season = ''2024'',
          game_date = (2024, 1, 15), home_team = ''Lions '', away_team = ''Tigers'',
          home_score = 3, away_score = 2, winner = Some ''Lions ''\<rparr>)]\<rparr>,
        Inl (DuplicateGame gid'))"
proof -
  let ?g = "\<lparr>game_league = ''L'', game_season = ''2024'',
          game_date = (2024, 1, 15), home_team = ''Lions '', away_team = ''Tigers'',
          home_score = 3, away_score = 2, winner = Some ''Lions ''\<rparr>"
  let ?st = "empty_store\<lparr>games := [(1, ?g)]\<rparr>"
  have h: "normalize_team (home_team ?g) = normalize_team ''LIONS''" by code_simp
  have a: "normalize_team (away_team ?g) = normalize_team '' tigers''" by code_simp
  have m: "(1, ?g) \<in> set (games ?st)" by simp
  have d: "detect_team_names [] (Inl ValueError) (Some '' tigers'') (Some ''LIONS'')
             = Inr ('' tigers'', ''LIONS'')"
    by (simp add: detect_team_names_def supplied_def)
  from duplicate_check_symmetric [OF m _ _ _ h a, of "(2024, 1, 15)" "''L''" "''2024''"] d
  show ?thesis by (simp; blast)
qed

section \<open>Flat layout: exactly two teams\<close>











lemma detect_two_team_columns:
  assumes "1 < count_list (df_columns df) ''team''"
  shows "detect_teams_from_csv df = Inl AttributeError"
proof -
  from assms have "count_list (df_columns df) ''team'' \<noteq> 0" by simp
  then have "''team'' \<in> set (df_columns df)" by (simp add: count_list_0_iff)
  with assms show ?thesis by (simp add: detect_teams_from_csv_def)
qed

text \<open>A file with the columns \<open>Team\<close> and \<open>Team Name\<close> has two \<open>team\<close> columns.\<close>

lemma detect_team_and_team_name:
  "detect_teams_from_csv (normalize_columns
      \<lparr>df_columns = [''Player'', ''Team'', ''Team Name''],
       df_rows = [[CStr ''Al'', CStr ''A'', CStr ''A''], [CStr ''Bo'', CStr ''B'', CStr ''B'']]\<rparr>)
     = Inl AttributeError"
  by (rule detect_two_team_columns) code_simp






section \<open>Errors of the numeric conversions\<close>

lemma ebind_Inl_iff: "ebind r f = Inl e \<longleftrightarrow> r = Inl e \<or> (\<exists>v. r = Inr v \<and> f v = Inl e)"
  by (cases r) (auto simp: ebind_def)

lemma ebind_Inr_iff: "ebind r f = Inr y \<longleftrightarrow> (\<exists>v. r = Inr v \<and> f v = Inr y)"
  by (cases r) (auto simp: ebind_def)











section \<open>Manual team assignment\<close>





section \<open>Rounding to the nearest double\<close>

lemma bitlen_powi_bounds:
  assumes "0 < a"
  shows "2 powi (bitlen a - 1) \<le> (of_int a :: rat)" "(of_int a :: rat) < 2 powi (bitlen a)"
proof -
  from bitlen_bounds [OF assms] have b: "2 ^ nat (bitlen a - 1) \<le> a" "a < 2 ^ nat (bitlen a)"
    by simp_all
  have pos: "1 \<le> bitlen a" using assms bitlen_eq_zero_iff [of a] bitlen_nonneg [of a] by linarith
  have "(of_int (2 ^ nat (bitlen a - 1)) :: rat) \<le> of_int a" using b(1) by (simp only: of_int_le_iff)
  then show "2 powi (bitlen a - 1) \<le> (of_int a :: rat)"
    using pos by (simp add: power_int_def)
  have "(of_int a :: rat) < of_int (2 ^ nat (bitlen a))" using b(2) by (simp only: of_int_less_iff)
  then show "(of_int a :: rat) < 2 powi (bitlen a)"
    using pos by (simp add: power_int_def)
qed

lemma floor_log2_bounds:
  assumes "0 < q"
  shows "2 powi (floor_log2 q) \<le> q \<and> q < 2 powi (floor_log2 q + 1)"
proof -
  obtain a b where ab: "quotient_of q = (a, b)" by (cases "quotient_of q")
  then have b: "0 < b" and q: "q = of_int a / of_int b"
    by (simp_all add: quotient_of_denom_pos quotient_of_div)
  with assms have a: "0 < a" by (simp add: zero_less_divide_iff)
  define k where "k = bitlen a - bitlen b"
  have fl: "floor_log2 q = (if 2 powi k \<le> q then k else k - 1)"
    by (simp add: floor_log2_def ab k_def)
  note ba = bitlen_powi_bounds [OF a] and bb = bitlen_powi_bounds [OF b]
  have bpos: "(0::rat) < of_int b" using b by simp
  have p1: "(2::rat) powi (k + 1) = 2 powi (bitlen a) / 2 powi (bitlen b - 1)"
    by (simp add: k_def power_int_diff [symmetric] algebra_simps)
  have p2: "(2::rat) powi (k - 1) = 2 powi (bitlen a - 1) / 2 powi (bitlen b)"
    by (simp add: k_def power_int_diff [symmetric] algebra_simps)
  have up: "q < 2 powi (k + 1)"
  proof -
    have "q < 2 powi (bitlen a) / of_int b" unfolding q using ba(2) bpos
      by (simp add: divide_strict_right_mono)
    also have "\<dots> \<le> 2 powi (bitlen a) / 2 powi (bitlen b - 1)"
      using bb(1) bpos by (intro divide_left_mono) (simp_all add: zero_less_power_int mult_pos_pos)
    finally show ?thesis by (simp add: p1)
  qed
  have lo: "2 powi (k - 1) \<le> q"
  proof -
    have "2 powi (bitlen a - 1) / 2 powi (bitlen b) \<le> of_int a / (2 powi (bitlen b) :: rat)"
      using ba(1) by (simp add: divide_right_mono zero_less_power_int less_imp_le)
    also have "\<dots> \<le> of_int a / of_int b"
      using bb(2) a bpos by (intro divide_left_mono) (simp_all add: zero_less_power_int mult_pos_pos)
    finally show ?thesis by (simp add: p2 q)
  qed
  show ?thesis using up lo by (auto simp: fl not_le less_imp_le)
qed

lemma floor_log2_unique:
  assumes "0 < q" "2 powi k \<le> q" "q < 2 powi (k + 1)"
  shows "floor_log2 q = k"
proof -
  from floor_log2_bounds [OF assms(1)]
  have b: "2 powi (floor_log2 q) \<le> q" "q < 2 powi (floor_log2 q + 1)" by simp_all
  have "(2::rat) powi k < 2 powi (floor_log2 q + 1)" using assms(2) b(2) by simp
  then have 1: "k < floor_log2 q + 1"
    by (metis not_le power_int_increasing one_le_numeral)
  have "(2::rat) powi (floor_log2 q) < 2 powi (k + 1)" using assms(3) b(1) by simp
  then have 2: "floor_log2 q < k + 1"
    by (metis not_le power_int_increasing one_le_numeral)
  from 1 2 show ?thesis by simp
qed

lemma round_half_even_err: "\<bar>of_int (round_half_even x) - x\<bar> \<le> 1 / 2"
  unfolding round_half_even_def Let_def by (auto simp: abs_if) linarith+

lemma round_half_even_of_int [simp]: "round_half_even (of_int n) = n"
  by (simp add: round_half_even_def)

lemma round_half_even_le: "x \<le> of_int n \<Longrightarrow> round_half_even x \<le> n"
proof -
  assume x: "x \<le> of_int n"
  show ?thesis
  proof (cases "x = of_int n")
    case True then show ?thesis by simp
  next
    case False
    with x have "x < of_int n" by simp
    then have "\<lfloor>x\<rfloor> < n" by (simp add: floor_less_iff)
    then show ?thesis unfolding round_half_even_def Let_def by auto
  qed
qed

lemma round_half_even_ge: "of_int n \<le> x \<Longrightarrow> n \<le> round_half_even x"
proof -
  assume "of_int n \<le> x"
  then have "n \<le> \<lfloor>x\<rfloor>" by (simp add: le_floor_iff)
  then show ?thesis unfolding round_half_even_def Let_def by auto
qed

lemma round_half_even_frac:
  assumes "0 < b"
  shows "round_half_even (of_int a / of_int b) =
    (if 2 * (a mod b) < b then a div b else if b < 2 * (a mod b) then a div b + 1
     else if even (a div b) then a div b else a div b + 1)"
proof -
  have f: "\<lfloor>(of_int a / of_int b :: rat)\<rfloor> = a div b" by (simp add: floor_divide_of_int_eq)
  have bpos: "(0::rat) < of_int b" using assms by simp
  have "(of_int a :: rat) = of_int (a div b * b + a mod b)" by simp
  also have "\<dots> = of_int (a div b) * of_int b + of_int (a mod b)"
    by (simp only: of_int_add of_int_mult)
  finally have "(of_int a / of_int b :: rat) = of_int (a div b) + of_int (a mod b) / of_int b"
    using bpos by (simp add: field_simps)
  then have d: "(of_int a / of_int b :: rat) - of_int (a div b) = of_int (a mod b) / of_int b"
    by simp
  have lt: "(of_int (a mod b) / of_int b :: rat) < 1 / 2 \<longleftrightarrow> 2 * (a mod b) < b"
  proof -
    have "(of_int (a mod b) / of_int b :: rat) < 1 / 2 \<longleftrightarrow> (of_int (2 * (a mod b)) :: rat) < of_int b"
      using bpos by (simp add: field_simps)
    then show ?thesis by (simp only: of_int_less_iff)
  qed
  have gt: "1 / 2 < (of_int (a mod b) / of_int b :: rat) \<longleftrightarrow> b < 2 * (a mod b)"
  proof -
    have "1 / 2 < (of_int (a mod b) / of_int b :: rat) \<longleftrightarrow> (of_int b :: rat) < of_int (2 * (a mod b))"
      using bpos by (simp add: field_simps)
    then show ?thesis by (simp only: of_int_less_iff)
  qed
  show ?thesis unfolding round_half_even_def Let_def f d lt gt by simp
qed

lemma nearest_double_normal:
  assumes "0 < q" "2 powi k \<le> q" "q < 2 powi (k + 1)" "- 1022 \<le> k"
  shows "nearest_double q =
    (if 2 ^ 1024 \<le> of_int (round_half_even (q / 2 powi (k - 52))) * (2::rat) powi (k - 52)
     then PInf
     else Fin (of_int (round_half_even (q / 2 powi (k - 52))) * 2 powi (k - 52)))"
proof -
  have fl: "floor_log2 q = k" using assms by (simp add: floor_log2_unique)
  have e: "max (k - 52) (- 1074) = k - 52" using assms(4) by simp
  have ab: "\<bar>q\<bar> = q" "sgn q = 1" "q \<noteq> 0" using assms(1) by simp_all
  show ?thesis unfolding nearest_double_def Let_def ab fl e using assms(1) by simp
qed

lemma nearest_double_eval:
  assumes a: "0 < a" and b: "0 < b"
    and lo: "2 ^ 52 * b \<le> a * 2 ^ n" and hi: "a * 2 ^ n < 2 ^ 53 * b" and n: "n \<le> 1074"
  shows "nearest_double (of_int a / of_int b)
     = Fin (of_int (round_half_even (of_int (a * 2 ^ n) / of_int b)) / 2 ^ n)"
proof -
  define q :: rat where "q = of_int a / of_int b"
  define k :: int where "k = 52 - int n"
  have bpos: "(0::rat) < of_int b" using b by simp
  have q: "0 < q" using a b by (simp add: q_def)
  have pe: "(2::rat) powi (k - 52) = inverse (2 ^ n)"
    by (simp add: k_def power_int_minus)
  have sc: "q / 2 powi (k - 52) = of_int (a * 2 ^ n) / of_int b"
    by (simp add: pe q_def field_simps)
  have "(of_int (2 ^ 52 * b) :: rat) \<le> of_int (a * 2 ^ n)" using lo by (simp only: of_int_le_iff)
  then have lo': "2 ^ 52 \<le> q / 2 powi (k - 52)"
    unfolding sc using bpos by (simp add: field_simps)
  have "(of_int (a * 2 ^ n) :: rat) < of_int (2 ^ 53 * b)" using hi by (simp only: of_int_less_iff)
  then have hi': "q / 2 powi (k - 52) < 2 ^ 53"
    unfolding sc using bpos by (simp add: field_simps)
  have p52: "(2::rat) powi k = 2 ^ 52 * 2 powi (k - 52)"
    by (simp add: power_int_diff)
  have p53: "(2::rat) powi (k + 1) = 2 ^ 53 * 2 powi (k - 52)"
    by (simp add: power_int_diff power_int_add)
  have ppos: "(0::rat) < 2 powi (k - 52)" by (simp add: zero_less_power_int)
  have klo: "2 powi k \<le> q" using lo' ppos unfolding p52 by (simp add: field_simps)
  have khi: "q < 2 powi (k + 1)" using hi' ppos unfolding p53 by (simp add: field_simps)
  have kr: "- 1022 \<le> k" using n by (simp add: k_def)
  have "q / 2 powi (k - 52) \<le> of_int (2 ^ 53)" using hi' by simp
  then have m: "round_half_even (q / 2 powi (k - 52)) \<le> 2 ^ 53" by (rule round_half_even_le)
  have "(of_int (round_half_even (q / 2 powi (k - 52))) :: rat) \<le> of_int (2 ^ 53)"
    using m by (simp only: of_int_le_iff)
  then have "(of_int (round_half_even (q / 2 powi (k - 52))) :: rat) \<le> 2 ^ 53" by simp
  moreover have "(2::rat) powi (k - 52) \<le> 1" unfolding pe by (simp add: inverse_le_1_iff)
  moreover have "0 \<le> round_half_even (q / 2 powi (k - 52))"
    using lo' by (intro round_half_even_ge) (simp add: order_trans [of _ "2 ^ 52"])
  ultimately have "of_int (round_half_even (q / 2 powi (k - 52))) * (2::rat) powi (k - 52) \<le> 2 ^ 53 * 1"
    using ppos by (intro mult_mono) simp_all
  also have "\<dots> < (2::rat) ^ 1024" by simp
  finally have fin: "\<not> 2 ^ 1024 \<le> of_int (round_half_even (q / 2 powi (k - 52))) * (2::rat) powi (k - 52)"
    by simp
  have "nearest_double q = Fin (of_int (round_half_even (q / 2 powi (k - 52))) * 2 powi (k - 52))"
    using nearest_double_normal [OF q klo khi kr] fin by simp
  then have "nearest_double q
      = Fin (of_int (round_half_even (of_int (a * 2 ^ n) / of_int b)) * 2 powi (k - 52))"
    by (simp only: sc)
  then have "nearest_double q
      = Fin (of_int (round_half_even (of_int (a * 2 ^ n) / of_int b)) * inverse (2 ^ n))"
    by (simp only: pe)
  then show ?thesis unfolding q_def by (simp only: divide_inverse)
qed

lemma nearest_double_overflow:
  assumes "2 ^ 1024 \<le> q"
  shows "nearest_double q = PInf"
proof -
  have q: "0 < q" using assms by (rule less_le_trans [rotated]) simp
  define k where "k = floor_log2 q"
  from floor_log2_bounds [OF q] have b: "2 powi k \<le> q" "q < 2 powi (k + 1)"
    by (simp_all add: k_def)
  have "(2::rat) powi 1024 < 2 powi (k + 1)" using assms b(2) by simp
  then have k: "1024 \<le> k" by (smt (verit) power_int_increasing one_le_numeral not_le)
  have ppos: "(0::rat) < 2 powi (k - 52)" by (simp add: zero_less_power_int)
  have p52: "(2::rat) powi k = 2 ^ 52 * 2 powi (k - 52)" by (simp add: power_int_diff)
  have "of_int (2 ^ 52) \<le> q / 2 powi (k - 52)"
    using b(1) ppos unfolding p52 by (simp add: field_simps)
  then have "2 ^ 52 \<le> round_half_even (q / 2 powi (k - 52))" by (rule round_half_even_ge)
  then have "(of_int (2 ^ 52) :: rat) \<le> of_int (round_half_even (q / 2 powi (k - 52)))"
    by (simp only: of_int_le_iff)
  then have "2 ^ 52 * 2 powi (k - 52) \<le> of_int (round_half_even (q / 2 powi (k - 52))) * (2::rat) powi (k - 52)"
    using ppos by (intro mult_right_mono) simp_all
  moreover have "(2::rat) powi 1024 \<le> 2 powi k" using k by (intro power_int_increasing) simp_all
  ultimately have "2 ^ 1024 \<le> of_int (round_half_even (q / 2 powi (k - 52))) * (2::rat) powi (k - 52)"
    unfolding p52 [symmetric] by simp
  moreover have "- 1022 \<le> k" using k by simp
  ultimately show ?thesis using nearest_double_normal [OF q b] by simp
qed

lemma nearest_double_of_int:
  assumes "\<bar>n\<bar> < 2 ^ 53"
  shows "nearest_double (of_int n) = Fin (of_int n)"
proof (cases "n = 0")
  case True
  then show ?thesis by (simp add: nearest_double_def)
next
  case False
  define q :: rat where "q = of_int \<bar>n\<bar>"
  have q: "0 < q" using False by (simp add: q_def)
  define k where "k = floor_log2 q"
  from floor_log2_bounds [OF q] have b: "2 powi k \<le> q" "q < 2 powi (k + 1)"
    by (simp_all add: k_def)
  have "q < of_int (2 ^ 53)" unfolding q_def using assms by (simp only: of_int_less_iff)
  then have "(2::rat) powi k < 2 powi 53" using b(1) by simp
  then have k52: "k \<le> 52" by (smt (verit) power_int_increasing one_le_numeral not_le)
  have "(1::rat) \<le> q" unfolding q_def using False by (simp add: of_int_abs [symmetric] del: of_int_abs) 
  then have "(2::rat) powi 0 < 2 powi (k + 1)" using b(2) by simp
  then have k0: "0 \<le> k" by (smt (verit) power_int_increasing one_le_numeral not_le)
  define j where "j = nat (52 - k)"
  have kj: "k - 52 = - int j" using k52 by (simp add: j_def)
  have pe: "(2::rat) powi (k - 52) = inverse (2 ^ j)" unfolding kj by (simp add: power_int_minus)
  have sc: "q / 2 powi (k - 52) = of_int (\<bar>n\<bar> * 2 ^ j)"
    by (simp add: pe q_def divide_inverse)
  have m: "round_half_even (q / 2 powi (k - 52)) = \<bar>n\<bar> * 2 ^ j"
    by (simp only: sc round_half_even_of_int)
  have "of_int (round_half_even (q / 2 powi (k - 52))) * (2::rat) powi (k - 52)
      = of_int (\<bar>n\<bar> * 2 ^ j) * 2 powi (k - 52)"
    by (simp only: m)
  also have "\<dots> = q" by (simp add: pe q_def)
  finally have v: "of_int (round_half_even (q / 2 powi (k - 52))) * (2::rat) powi (k - 52) = q" .
  have "q < 2 ^ 1024" using \<open>q < of_int (2 ^ 53)\<close> by (rule less_trans) simp
  then have nd: "nearest_double q = Fin q"
    using nearest_double_normal [OF q b] k0 unfolding v by simp
  show ?thesis
  proof (cases "0 < n")
    case True
    then show ?thesis using nd by (simp add: q_def)
  next
    case neg: False
    with False have n: "n < 0" by simp
    have "nearest_double (of_int n) = Fin (sgn (of_int n :: rat) * q)"
      using n nd q unfolding nearest_double_def Let_def q_def
      by (simp add: split: if_splits)
    then show ?thesis using n by (simp add: q_def)
  qed
qed

lemma round_half_even_numeral:
  "round_half_even (numeral a / numeral b) =
    (if 2 * (numeral a mod numeral b) < (numeral b :: int) then numeral a div numeral b
     else if (numeral b :: int) < 2 * (numeral a mod numeral b) then numeral a div numeral b + 1
     else if even (numeral a div numeral b :: int) then numeral a div numeral b
     else numeral a div numeral b + 1)"
  using round_half_even_frac [of "numeral b" "numeral a"] by simp

section \<open>Lenient integer coercion of plain numerals\<close>

lemma strip_by_id:
  assumes "s \<noteq> []" "\<not> P (hd s)" "\<not> P (last s)"
  shows "strip_by P s = s"
proof -
  have 1: "dropWhile P s = s" using assms by (cases s) auto
  have "rev s \<noteq> []" "\<not> P (hd (rev s))" using assms by (simp_all add: hd_rev)
  then have 2: "dropWhile P (rev s) = rev s" by (cases "rev s") auto
  show ?thesis by (simp add: strip_by_def 1 2)
qed

lemma is_decimal_props:
  assumes "is_decimal c"
  shows "\<not> is_space c" "c \<noteq> CHR 0x22" "c \<noteq> CHR 0x27" "lower_char c = c"
    "c \<noteq> CHR ''+''" "c \<noteq> CHR ''-''" "c \<noteq> CHR ''n''" "c \<noteq> CHR ''i''"
  using assms by (auto simp: is_decimal_def is_space_def lower_char_def Let_def)

lemma digitpart_tail_all: "list_all is_decimal cs \<Longrightarrow> digitpart_tail cs = (cs, [])"
  by (induction cs rule: digitpart_tail.induct) auto

lemma digitpart_all: "list_all is_decimal cs \<Longrightarrow> digitpart cs = (cs, [])"
  by (cases cs) (auto simp: digitpart_def digitpart_tail_all)

lemma safe_int_digits:
  assumes ne: "ds \<noteq> []" and dec: "list_all is_decimal ds" and small: "digits_value ds < 2 ^ 53"
  shows "safe_int ds = Inr (int (digits_value ds))"
proof -
  obtain c cs where ds: "ds = c # cs" using ne by (cases ds) auto
  have hd: "is_decimal (hd ds)" and lst: "is_decimal (last ds)"
    using ne dec by (auto simp: list_all_iff)
  note ph = is_decimal_props [OF hd] and pl = is_decimal_props [OF lst]
  have s1: "strip ds = ds"
    unfolding strip_def using ne ph(1) pl(1) by (rule strip_by_id)
  have s2: "strip_char (CHR 0x22) ds = ds"
    unfolding strip_char_def using ne ph(2) pl(2) by (rule strip_by_id)
  have s3: "strip_char (CHR 0x27) ds = ds"
    unfolding strip_char_def using ne ph(3) pl(3) by (rule strip_by_id)
  have sq: "strip_quotes ds = ds" by (simp add: strip_quotes_def s1 s2 s3)
  have "\<forall>x \<in> set ds. lower_char x = x"
    using dec is_decimal_props(4) by (simp add: list_all_iff)
  then have low: "lower ds = ds" unfolding lower_def by (simp add: map_idI)
  have hc: "is_decimal c" using hd ds by simp
  note pc = is_decimal_props [OF hc]
  have nn: "ds \<noteq> ''nan''" "ds \<noteq> ''inf''" "ds \<noteq> ''infinity''"
    using pc(7,8) ds by simp_all
  have ts: "take_sign ds = (1, ds)"
    using pc(5,6) ds by (simp add: take_sign_def)
  have "\<bar>int (digits_value ds)\<bar> < 2 ^ 53" using small by simp
  from nearest_double_of_int [OF this]
  have nd: "nearest_double (of_nat (digits_value ds)) = Fin (of_nat (digits_value ds))" by simp
  have pf: "py_float_of_str ds = Inr (Fin (of_nat (digits_value ds)))"
    unfolding py_float_of_str_def s1 ts low
    using nn ne nd by (simp add: digitpart_all [OF dec] low Let_def)
  show ?thesis
    using ne nn by (simp add: safe_int_def sq low pf ebind_def py_int_of_float_def Let_def)
qed

section \<open>Sectioned layout: rosters and rows\<close>

lemma drop_take_nth: "j \<le> length xs \<Longrightarrow> drop a (take j xs) = map (nth xs) [a..<j]"
proof -
  assume j: "j \<le> length xs"
  have "take j xs = take j (map (nth xs) [0..<length xs])" by (simp add: map_nth)
  also have "\<dots> = map (nth xs) [0..<j]" using j by (simp add: take_map)
  finally have "drop a (take j xs) = map (nth xs) (drop a [0..<j])" by (simp add: drop_map)
  then show ?thesis by simp
qed

lemma drop_nth: "drop a xs = map (nth xs) [a..<length xs]"
  using drop_take_nth [of "length xs" xs a] by simp

lemma map_filter_enumerate_bounds:
  "sorted_wrt (<) (map fst (List.map_filter (\<lambda>(i, x). map_option (Pair i) (f x)) (enumerate n xs))) \<and>
   (\<forall>(k, t) \<in> set (List.map_filter (\<lambda>(i, x). map_option (Pair i) (f x)) (enumerate n xs)).
      n \<le> k \<and> k < n + length xs \<and> f (xs ! (k - n)) = Some t)"
proof (induction xs arbitrary: n)
  case Nil
  then show ?case by simp
next
  case (Cons x xs)
  have ih: "sorted_wrt (<) (map fst (List.map_filter (\<lambda>(i, x). map_option (Pair i) (f x)) (enumerate (Suc n) xs)))"
    "\<And>k t. (k, t) \<in> set (List.map_filter (\<lambda>(i, x). map_option (Pair i) (f x)) (enumerate (Suc n) xs))
       \<Longrightarrow> Suc n \<le> k \<and> k < Suc n + length xs \<and> f (xs ! (k - Suc n)) = Some t"
    using Cons.IH [of "Suc n"] by auto
  show ?case
  proof (cases "f x")
    case None
    then show ?thesis using ih by (auto simp: Suc_diff_le dest!: ih(2))
  next
    case (Some t)
    then show ?thesis using ih by (auto simp: Suc_diff_le dest!: ih(2)) 
  qed
qed

lemma find_team_headers_two:
  assumes "find_team_headers lines = [(i, n1), (j, n2)]"
  shows "i < j \<and> j < length lines \<and> header_team (lines ! i) = Some n1 \<and>
         header_team (lines ! j) = Some n2"
  using map_filter_enumerate_bounds [of header_team 0 lines] assms
  by (auto simp: find_team_headers_def)

lemma section_rows:
  "parse_hittrax_team_section lines team = Inr ps \<Longrightarrow> ps = List.map_filter (line_row team) lines"
  by (induction lines arbitrary: ps)
     (auto simp: line_row_def split: sum.splits option.splits)

lemma line_row_fields:
  assumes "line_row team line = Some p"
  shows "10 \<le> length (split_on (CHR '','') line) \<and>
     ps_player_name p = strip (split_values line ! 0) \<and>
     ps_player_name p \<noteq> [] \<and> ps_player_name p \<noteq> ''Unknown'' \<and> ps_team p = team \<and>
     (0 < c_AB (ps_counts p) \<or> 0 < c_H (ps_counts p) \<or> 0 < c_R (ps_counts p)) \<and>
     safe_int (split_values line ! 2) = Inr (c_AB (ps_counts p)) \<and>
     safe_int (split_values line ! 3) = Inr (c_R (ps_counts p)) \<and>
     safe_int (split_values line ! 4) = Inr (c_H (ps_counts p)) \<and>
     safe_int (split_values line ! 6) = Inr (c_double (ps_counts p)) \<and>
     safe_int (split_values line ! 7) = Inr (c_triple (ps_counts p)) \<and>
     safe_int (split_values line ! 8) = Inr (c_HR (ps_counts p)) \<and>
     safe_int (split_values line ! 9) = Inr (c_RBI (ps_counts p)) \<and>
     (if 11 < length (split_values line) then safe_int (split_values line ! 11) else Inr 0)
        = Inr (c_K (ps_counts p)) \<and>
     (if 13 < length (split_values line) then safe_int (split_values line ! 13) else Inr 0)
        = Inr (c_BB (ps_counts p)) \<and>
     c_HBP (ps_counts p) = 0 \<and> c_SF (ps_counts p) = 0 \<and> c_SH (ps_counts p) = 0 \<and>
     c_SB (ps_counts p) = 0 \<and> c_CS (ps_counts p) = 0"
proof -
  from assms have pl: "parse_hittrax_line team line = Inr (Some p)"
    by (auto simp: line_row_def split: sum.splits)
  have len: "length (split_values line) = length (split_on (CHR '','') line)"
    by (simp add: split_values_def)
  from pl have l10: "10 \<le> length (split_values line)"
    by (auto simp: parse_hittrax_line_def Let_def split: if_splits)
  from pl obtain ps where ps: "ebind (safe_int (split_values line ! 2)) (\<lambda>ab.
                ebind (safe_int (split_values line ! 3)) (\<lambda>r.
                ebind (safe_int (split_values line ! 4)) (\<lambda>h.
                ebind (safe_int (split_values line ! 6)) (\<lambda>doubles.
                ebind (safe_int (split_values line ! 7)) (\<lambda>triples.
                ebind (safe_int (split_values line ! 8)) (\<lambda>hr.
                ebind (safe_int (split_values line ! 9)) (\<lambda>rbi.
                ebind (if 11 < length (split_values line) then safe_int (split_values line ! 11) else Inr 0) (\<lambda>so.
                ebind (if 13 < length (split_values line) then safe_int (split_values line ! 13) else Inr 0) (\<lambda>bb.
                  Inr \<lparr>ps_player_name = strip (split_values line ! 0), ps_team = team,
                       ps_counts = \<lparr>c_AB = ab, c_H = h, c_double = doubles, c_triple = triples,
                         c_HR = hr, c_BB = bb, c_HBP = 0, c_SF = 0, c_SH = 0, c_K = so,
                         c_R = r, c_RBI = rbi, c_SB = 0, c_CS = 0\<rparr>\<rparr>))))))))) = Inr ps"
     and keep: "ps_player_name ps \<noteq> [] \<and> ps_player_name ps \<noteq> ''Unknown'' \<and>
                     (0 < c_AB (ps_counts ps) \<or> 0 < c_H (ps_counts ps) \<or> 0 < c_R (ps_counts ps))"
     and pp: "ps = p"
    by (auto simp: parse_hittrax_line_def Let_def split: if_splits sum.splits)
  from ps [unfolded ebind_Inr_iff] keep pp l10 len show ?thesis
    by (elim exE conjE) auto
qed

text \<open>
  Claim C1. When the first pass finds exactly two team headers, at lines \<open>i\<close> and \<open>j\<close>,
  and detection succeeds, then \<open>i < j\<close>, the roster of team 1 is parsed from exactly
  the lines \<open>i + 1, \<dots>, j - 1\<close> and the roster of team 2 from exactly the lines after
  \<open>j\<close> up to the end, each line contributing at most one row, in order. A line
  contributes a row only if it has at least 10 comma-separated fields; the row's name
  is field 0, is not empty and is not \<open>Unknown\<close>; one of AB, H, R is positive; AB, R, H,
  doubles, triples, HR and RBI are the lenient integer readings of fields 2, 3, 4, 6, 7,
  8 and 9, K and BB those of fields 11 and 13 (0 when the line is too short to have
  them), and HBP, SF, SH, SB and CS are 0.
\<close>

theorem hittrax_two_headers:
  assumes hdr: "find_team_headers (splitlines text) = [(i, n1), (j, n2)]"
    and ok: "detect_teams_from_hittrax_format text = Inr td"
  shows "i < j \<and> j < length (splitlines text) \<and> team1_name td = n1 \<and> team2_name td = n2 \<and>
     team1_players td
       = List.map_filter (line_row n1) (map (nth (splitlines text)) [i + 1..<j]) \<and>
     team2_players td
       = List.map_filter (line_row n2)
           (map (nth (splitlines text)) [j + 1..<length (splitlines text)]) \<and>
     (\<forall>team line p. line_row team line = Some p \<longrightarrow>
        10 \<le> length (split_on (CHR '','') line) \<and>
        ps_player_name p = strip (split_values line ! 0) \<and>
        ps_player_name p \<noteq> [] \<and> ps_player_name p \<noteq> ''Unknown'' \<and> ps_team p = team \<and>
        (0 < c_AB (ps_counts p) \<or> 0 < c_H (ps_counts p) \<or> 0 < c_R (ps_counts p)) \<and>
        safe_int (split_values line ! 2) = Inr (c_AB (ps_counts p)) \<and>
        safe_int (split_values line ! 3) = Inr (c_R (ps_counts p)) \<and>
        safe_int (split_values line ! 4) = Inr (c_H (ps_counts p)) \<and>
        safe_int (split_values line ! 6) = Inr (c_double (ps_counts p)) \<and>
        safe_int (split_values line ! 7) = Inr (c_triple (ps_counts p)) \<and>
        safe_int (split_values line ! 8) = Inr (c_HR (ps_counts p)) \<and>
        safe_int (split_values line ! 9) = Inr (c_RBI (ps_counts p)) \<and>
        (if 11 < length (split_values line) then safe_int (split_values line ! 11) else Inr 0)
           = Inr (c_K (ps_counts p)) \<and>
        (if 13 < length (split_values line) then safe_int (split_values line ! 13) else Inr 0)
           = Inr (c_BB (ps_counts p)) \<and>
        c_HBP (ps_counts p) = 0 \<and> c_SF (ps_counts p) = 0 \<and> c_SH (ps_counts p) = 0 \<and>
        c_SB (ps_counts p) = 0 \<and> c_CS (ps_counts p) = 0)"
proof -
  let ?lines = "splitlines text"
  from find_team_headers_two [OF hdr] have ij: "i < j" "j < length ?lines" by simp_all
  have sec: "detect_team_sections ?lines = [(i, n1), (j, n2)]"
    using hdr by (simp add: detect_team_sections_def)
  have l1: "team1_lines ?lines i j = map (nth ?lines) [i + 1..<j]"
    using ij by (simp add: team1_lines_def drop_take_nth)
  have l2: "team2_lines ?lines j = map (nth ?lines) [j + 1..<length ?lines]"
    by (simp add: team2_lines_def drop_nth)
  from ok obtain players1 players2 where
    p1: "parse_hittrax_team_section (team1_lines ?lines i j) n1 = Inr players1" and
    p2: "parse_hittrax_team_section (team2_lines ?lines j) n2 = Inr players2" and
    td: "team1_name td = n1" "team2_name td = n2"
        "team1_players td = players1" "team2_players td = players2"
    unfolding detect_teams_from_hittrax_format_def Let_def sec
    by (auto simp: ebind_Inr_iff split: if_splits)
  have a: "team1_players td
       = List.map_filter (line_row n1) (map (nth (splitlines text)) [i + 1..<j])"
    using section_rows [OF p1] l1 td by simp
  have b: "team2_players td
       = List.map_filter (line_row n2)
           (map (nth (splitlines text)) [j + 1..<length (splitlines text)])"
    using section_rows [OF p2] l2 td by simp
  have c: "\<forall>team line p. line_row team line = Some p \<longrightarrow>
        10 \<le> length (split_on (CHR '','') line) \<and>
        ps_player_name p = strip (split_values line ! 0) \<and>
        ps_player_name p \<noteq> [] \<and> ps_player_name p \<noteq> ''Unknown'' \<and> ps_team p = team \<and>
        (0 < c_AB (ps_counts p) \<or> 0 < c_H (ps_counts p) \<or> 0 < c_R (ps_counts p)) \<and>
        safe_int (split_values line ! 2) = Inr (c_AB (ps_counts p)) \<and>
        safe_int (split_values line ! 3) = Inr (c_R (ps_counts p)) \<and>
        safe_int (split_values line ! 4) = Inr (c_H (ps_counts p)) \<and>
        safe_int (split_values line ! 6) = Inr (c_double (ps_counts p)) \<and>
        safe_int (split_values line ! 7) = Inr (c_triple (ps_counts p)) \<and>
        safe_int (split_values line ! 8) = Inr (c_HR (ps_counts p)) \<and>
        safe_int (split_values line ! 9) = Inr (c_RBI (ps_counts p)) \<and>
        (if 11 < length (split_values line) then safe_int (split_values line ! 11) else Inr 0)
           = Inr (c_K (ps_counts p)) \<and>
        (if 13 < length (split_values line) then safe_int (split_values line ! 13) else Inr 0)
           = Inr (c_BB (ps_counts p)) \<and>
        c_HBP (ps_counts p) = 0 \<and> c_SF (ps_counts p) = 0 \<and> c_SH (ps_counts p) = 0 \<and>
        c_SB (ps_counts p) = 0 \<and> c_CS (ps_counts p) = 0"
    by (intro allI impI) (rule line_row_fields)
  from ij td(1,2) a b c show ?thesis by (intro conjI) assumption+
qed

theorem hittrax_two_headers_witness:
  "find_team_headers (splitlines
     ''Tigers,Batting Order,AB,R,H\<newline>Al,1,4,1,2,1,1,0,0,1,15,1,0,2\<newline>Lions,Batting Order,AB\<newline>Cy,1,4,2,3,2,1,0,1,3\<newline>'')
     = [(0, ''Tigers''), (2, ''Lions'')] \<and>
   detect_teams_from_hittrax_format
     ''Tigers,Batting Order,AB,R,H\<newline>Al,1,4,1,2,1,1,0,0,1,15,1,0,2\<newline>Lions,Batting Order,AB\<newline>Cy,1,4,2,3,2,1,0,1,3\<newline>''
     = Inr \<lparr>team1_name = ''Tigers'', team2_name = ''Lions'',
        team1_players = [\<lparr>ps_player_name = ''Al'', ps_team = ''Tigers'',
           ps_counts = \<lparr>c_AB = 4, c_H = 2, c_double = 1, c_triple = 0, c_HR = 0, c_BB = 2,
             c_HBP = 0, c_SF = 0, c_SH = 0, c_K = 1, c_R = 1, c_RBI = 1, c_SB = 0, c_CS = 0\<rparr>\<rparr>],
        team2_players = [\<lparr>ps_player_name = ''Cy'', ps_team = ''Lions'',
           ps_counts = \<lparr>c_AB = 4, c_H = 3, c_double = 1, c_triple = 0, c_HR = 1, c_BB = 0,
             c_HBP = 0, c_SF = 0, c_SH = 0, c_K = 0, c_R = 2, c_RBI = 3, c_SB = 0, c_CS = 0\<rparr>\<rparr>],
        team1_runs = 1, team2_runs = 2, td_winner = Some ''Lions''\<rparr> \<and>
   (0::nat) < 2 \<and>
   (2::nat) < length (splitlines
     ''Tigers,Batting Order,AB,R,H\<newline>Al,1,4,1,2,1,1,0,0,1,15,1,0,2\<newline>Lions,Batting Order,AB\<newline>Cy,1,4,2,3,2,1,0,1,3\<newline>'')"
proof -
  let ?t = "''Tigers,Batting Order,AB,R,H\<newline>Al,1,4,1,2,1,1,0,0,1,15,1,0,2\<newline>Lions,Batting Order,AB\<newline>Cy,1,4,2,3,2,1,0,1,3\<newline>''"
  let ?l1 = "''Al,1,4,1,2,1,1,0,0,1,15,1,0,2''"
  let ?l2 = "''Cy,1,4,2,3,2,1,0,1,3''"
  have lines: "splitlines ?t = [''Tigers,Batting Order,AB,R,H'', ?l1, ''Lions,Batting Order,AB'', ?l2]"
    by code_simp
  have h: "find_team_headers (splitlines ?t) = [(0, ''Tigers''), (2, ''Lions'')]"
    unfolding lines by code_simp
  have sec: "detect_team_sections (splitlines ?t) = [(0, ''Tigers''), (2, ''Lions'')]"
    by (simp add: detect_team_sections_def h)
  have r1: "team1_lines (splitlines ?t) 0 2 = [?l1]" unfolding lines by (simp add: team1_lines_def)
  have r2: "team2_lines (splitlines ?t) 2 = [?l2]" unfolding lines by (simp add: team2_lines_def)
  have c1: "strip ?l1 \<noteq> []" "\<not> has_batting_order ?l1" "\<not> looks_like_header ?l1"
    "split_values ?l1 = [''Al'', ''1'', ''4'', ''1'', ''2'', ''1'', ''1'', ''0'', ''0'', ''1'',
       ''15'', ''1'', ''0'', ''2'']"
    "lower ''Al'' \<notin> set [''player'', ''name'', ''team'', ''batting order'']"
    "strip ''Al'' = ''Al''"
    by code_simp+
  have c2: "strip ?l2 \<noteq> []" "\<not> has_batting_order ?l2" "\<not> looks_like_header ?l2"
    "split_values ?l2 = [''Cy'', ''1'', ''4'', ''2'', ''3'', ''2'', ''1'', ''0'', ''1'', ''3'']"
    "lower ''Cy'' \<notin> set [''player'', ''name'', ''team'', ''batting order'']"
    "strip ''Cy'' = ''Cy''"
    by code_simp+
  have ints: "safe_int ''0'' = Inr 0" "safe_int ''1'' = Inr 1" "safe_int ''2'' = Inr 2"
    "safe_int ''3'' = Inr 3" "safe_int ''4'' = Inr 4"
    by (simp_all add: safe_int_digits is_decimal_def digits_value_def digit_val_def)
  have p1: "parse_hittrax_line ''Tigers'' ?l1 = Inr (Some \<lparr>ps_player_name = ''Al'', ps_team = ''Tigers'',
           ps_counts = \<lparr>c_AB = 4, c_H = 2, c_double = 1, c_triple = 0, c_HR = 0, c_BB = 2,
             c_HBP = 0, c_SF = 0, c_SH = 0, c_K = 1, c_R = 1, c_RBI = 1, c_SB = 0, c_CS = 0\<rparr>\<rparr>)"
    unfolding parse_hittrax_line_def Let_def c1(4) using c1(1,2,3,5,6)
    by (simp add: ints ebind_def)
  have p2: "parse_hittrax_line ''Lions'' ?l2 = Inr (Some \<lparr>ps_player_name = ''Cy'', ps_team = ''Lions'',
           ps_counts = \<lparr>c_AB = 4, c_H = 3, c_double = 1, c_triple = 0, c_HR = 1, c_BB = 0,
             c_HBP = 0, c_SF = 0, c_SH = 0, c_K = 0, c_R = 2, c_RBI = 3, c_SB = 0, c_CS = 0\<rparr>\<rparr>)"
    unfolding parse_hittrax_line_def Let_def c2(4) using c2(1,2,3,5,6)
    by (simp add: ints ebind_def)
  have ok: "detect_teams_from_hittrax_format ?t = Inr \<lparr>team1_name = ''Tigers'', team2_name = ''Lions'',
        team1_players = [\<lparr>ps_player_name = ''Al'', ps_team = ''Tigers'',
           ps_counts = \<lparr>c_AB = 4, c_H = 2, c_double = 1, c_triple = 0, c_HR = 0, c_BB = 2,
             c_HBP = 0, c_SF = 0, c_SH = 0, c_K = 1, c_R = 1, c_RBI = 1, c_SB = 0, c_CS = 0\<rparr>\<rparr>],
        team2_players = [\<lparr>ps_player_name = ''Cy'', ps_team = ''Lions'',
           ps_counts = \<lparr>c_AB = 4, c_H = 3, c_double = 1, c_triple = 0, c_HR = 1, c_BB = 0,
             c_HBP = 0, c_SF = 0, c_SH = 0, c_K = 0, c_R = 2, c_RBI = 3, c_SB = 0, c_CS = 0\<rparr>\<rparr>],
        team1_runs = 1, team2_runs = 2, td_winner = Some ''Lions''\<rparr>"
    unfolding detect_teams_from_hittrax_format_def Let_def sec
    by (simp add: r1 r2 p1 p2 ebind_def pick_winner_def)
  from hittrax_two_headers [OF h ok]
  have "(0::nat) < 2 \<and> 2 < length (splitlines ?t)" by blast
  with h ok show ?thesis by blast
qed

section \<open>Derived statistics\<close>

subsection \<open>Magnitude of the rounded quotients\<close>

lemma nearest_double_bounded:
  assumes "\<bar>q\<bar> \<le> 2 ^ K" "K \<le> 1023"
  shows "\<exists>w. nearest_double q = Fin w \<and> \<bar>w\<bar> \<le> 2 ^ K"
proof (cases "q = 0")
  case True
  then show ?thesis by (simp add: nearest_double_def)
next
  case False
  define p where "p = \<bar>q\<bar>"
  have p: "0 < p" using False by (simp add: p_def)
  define k where "k = floor_log2 p"
  define e where "e = max (k - 52) (- 1074)"
  define m where "m = round_half_even (p / 2 powi e)"
  define v :: rat where "v = of_int m * 2 powi e"
  from floor_log2_bounds [OF p] have b: "2 powi k \<le> p" "p < 2 powi (k + 1)"
    by (simp_all add: k_def)
  have "(2::rat) powi k \<le> 2 powi (int K)" using b(1) assms(1) by (simp add: p_def)
  then have kK: "k \<le> int K"
    by (smt (verit) power_int_strict_increasing one_less_numeral_iff semiring_norm(76) not_le)
  have eK: "e \<le> int K" using kK by (simp add: e_def)
  define j where "j = nat (int K - e)"
  have Kj: "int K = int j + e" using eK by (simp add: j_def)
  have epos: "(0::rat) < 2 powi e" by (simp add: zero_less_power_int)
  have pK: "(2::rat) ^ K = 2 ^ j * 2 powi e"
  proof -
    have "(2::rat) ^ K = 2 powi (int K)" by simp
    also have "\<dots> = 2 powi (int j) * 2 powi e" unfolding Kj by (simp add: power_int_add)
    finally show ?thesis by simp
  qed
  have "p / 2 powi e \<le> of_int (2 ^ j)"
    using assms(1) epos unfolding p_def [symmetric] pK by (simp add: field_simps)
  then have mj: "m \<le> 2 ^ j" unfolding m_def by (rule round_half_even_le)
  have "of_int 0 \<le> p / 2 powi e" using p epos by simp
  then have m0: "0 \<le> m" unfolding m_def by (rule round_half_even_ge)
  have "(of_int m :: rat) \<le> of_int (2 ^ j)" using mj by (simp only: of_int_le_iff)
  then have "v \<le> 2 ^ j * 2 powi e" unfolding v_def using epos by (intro mult_right_mono) simp_all
  then have vK: "v \<le> 2 ^ K" by (simp add: pK)
  have v0: "0 \<le> v" unfolding v_def using m0 epos by simp
  have "(2::rat) ^ K \<le> 2 ^ 1023" using assms(2) by (intro power_increasing) simp_all
  also have "\<dots> < (2::rat) ^ 1024" by simp
  finally have "v < 2 ^ 1024" using vK by simp
  then have nd: "nearest_double q = Fin (sgn q * v)"
    using False unfolding nearest_double_def Let_def p_def [symmetric] k_def [symmetric]
      e_def [symmetric] m_def [symmetric] v_def [symmetric] by simp
  have "\<bar>sgn q * v\<bar> = v" using v0 False by (simp add: abs_mult)
  with nd vK show ?thesis by simp
qed

lemma py_truediv_bounded:
  assumes "0 < b" "\<bar>a\<bar> \<le> 2 ^ K" "K \<le> 1023"
  shows "\<exists>w. py_truediv a b = Inr (Fin w) \<and> \<bar>w\<bar> \<le> 2 ^ K"
proof -
  have "(1::rat) \<le> of_int b" using assms(1) by simp
  then have "\<bar>of_int a\<bar> / of_int b \<le> \<bar>of_int a :: rat\<bar> / 1"
    by (intro divide_left_mono) simp_all
  then have "\<bar>of_int a / of_int b :: rat\<bar> \<le> \<bar>of_int a\<bar>"
    using assms(1) by (simp add: abs_divide)
  moreover have "\<bar>of_int a :: rat\<bar> \<le> of_int (2 ^ K)"
    using assms(2) by (simp only: of_int_abs [symmetric] of_int_le_iff)
  ultimately have "\<bar>of_int a / of_int b :: rat\<bar> \<le> 2 ^ K" by simp
  from nearest_double_bounded [OF this assms(3)] assms(1) show ?thesis
    by (auto simp: py_truediv_def)
qed

lemma py_round3_bounded:
  assumes "\<bar>v\<bar> \<le> 2 ^ K" "K < 1023"
  shows "\<exists>w. py_round3 (Fin v) = Inr (Fin w) \<and> \<bar>w\<bar> \<le> 2 ^ Suc K"
proof -
  have "\<bar>of_int (round_half_even (v * 1000)) - v * 1000\<bar> \<le> 1 / 2" by (rule round_half_even_err)
  then have "\<bar>of_int (round_half_even (v * 1000)) / 1000 - v\<bar> \<le> 1 / 2000"
    by (simp add: abs_if field_simps split: if_splits)
  then have "\<bar>of_int (round_half_even (v * 1000)) / 1000 :: rat\<bar> \<le> \<bar>v\<bar> + 1 / 2000" by linarith
  also have "\<dots> \<le> 2 ^ K + 2 ^ K"
  proof -
    have "(1::rat) \<le> 2 ^ K" by simp
    then show ?thesis using assms(1) by linarith
  qed
  finally have "\<bar>of_int (round_half_even (v * 1000)) / 1000 :: rat\<bar> \<le> 2 ^ Suc K" by simp
  moreover have "Suc K \<le> 1023" using assms(2) by simp
  ultimately obtain w where "nearest_double (of_int (round_half_even (v * 1000)) / 1000) = Fin w"
    "\<bar>w\<bar> \<le> 2 ^ Suc K" using nearest_double_bounded by blast
  then show ?thesis by (simp add: py_round3_def)
qed

lemma py_truediv_error: "py_truediv a b = Inl e \<Longrightarrow> b \<noteq> 0 \<Longrightarrow> e = OverflowError"
  by (auto simp: py_truediv_def split: pyfloat.splits)

lemma py_round3_error: "py_round3 x = Inl e \<Longrightarrow> e = OverflowError"
  by (auto simp: py_round3_def split: pyfloat.splits)

lemma rate_error:
  "(if 0 < b then ebind (py_truediv a b) py_round3 else Inr (Fin 0)) = Inl e \<Longrightarrow> e = OverflowError"
  by (auto simp: ebind_Inl_iff split: if_splits dest: py_truediv_error py_round3_error)

lemma rate_bounded:
  assumes "\<bar>a\<bar> \<le> 2 ^ 1000"
  shows "\<exists>w. (if 0 < b then ebind (py_truediv a b) py_round3 else Inr (Fin 0)) = Inr (Fin w) \<and>
             \<bar>w\<bar> \<le> 2 ^ 1001"
proof (cases "0 < b")
  case True
  from py_truediv_bounded [OF True assms] obtain v where
    v: "py_truediv a b = Inr (Fin v)" "\<bar>v\<bar> \<le> 2 ^ 1000" by auto
  from py_round3_bounded [OF v(2)] obtain w where
    "py_round3 (Fin v) = Inr (Fin w)" "\<bar>w\<bar> \<le> 2 ^ Suc 1000" by auto
  with v True show ?thesis by (auto simp: ebind_def)
next
  case False
  then show ?thesis by simp
qed

lemma ops_defined:
  assumes "\<bar>x\<bar> \<le> 2 ^ 1001" "\<bar>y\<bar> \<le> 2 ^ 1001"
  shows "\<exists>w. py_round3 (py_fadd (Fin x) (Fin y)) = Inr (Fin w)"
proof -
  have "\<bar>x + y\<bar> \<le> 2 ^ 1001 + 2 ^ 1001" using assms by linarith
  then have "\<bar>x + y\<bar> \<le> 2 ^ 1002" by simp
  from nearest_double_bounded [OF this] obtain s where
    s: "nearest_double (x + y) = Fin s" "\<bar>s\<bar> \<le> 2 ^ 1002" by auto
  from py_round3_bounded [OF s(2)] s(1) show ?thesis by auto
qed

lemma derived_error:
  assumes "compute_derived_stats_from_raw ab h double triple hr bb hbp sf sh = Inl e"
  shows "e = OverflowError"
  using assms
  unfolding compute_derived_stats_from_raw_def Let_def ebind_Inl_iff [where r = "if _ then _ else _"]
    ebind_Inl_iff [where r = "py_round3 _"]
  by (auto dest: rate_error py_round3_error)

lemma derived_fields:
  assumes "compute_derived_stats_from_raw ab h double triple hr bb hbp sf sh = Inr r"
  shows "d_singles r = h - double - triple - hr"
    and "d_PA r = ab + bb + hbp + sf + sh"
    and "d_TB r = d_singles r + 2 * double + 3 * triple + 4 * hr"
    and "Inr (d_AVG r) = (if 0 < ab then ebind (py_truediv h ab) py_round3 else Inr (Fin 0))"
    and "Inr (d_OBP r) = (if 0 < ab + bb + hbp + sf
                          then ebind (py_truediv (h + bb + hbp) (ab + bb + hbp + sf)) py_round3
                          else Inr (Fin 0))"
    and "Inr (d_SLG r) = (if 0 < ab then ebind (py_truediv (d_TB r) ab) py_round3
                          else Inr (Fin 0))"
    and "Inr (d_OPS r) = py_round3 (py_fadd (d_OBP r) (d_SLG r))"
  using assms
  unfolding compute_derived_stats_from_raw_def Let_def ebind_Inr_iff [where r = "if _ then _ else _"]
    ebind_Inr_iff [where r = "py_round3 _"]
  by (elim exE conjE, auto simp del: One_nat_def)+

lemma derived_defined:
  assumes b: "\<bar>h\<bar> \<le> 2 ^ 1000" "\<bar>h + bb + hbp\<bar> \<le> 2 ^ 1000"
    "\<bar>h - double - triple - hr + 2 * double + 3 * triple + 4 * hr\<bar> \<le> 2 ^ 1000"
  shows "\<exists>r. compute_derived_stats_from_raw ab h double triple hr bb hbp sf sh = Inr r"
proof -
  from rate_bounded [of h ab] b obtain avg where
    avg: "(if 0 < ab then ebind (py_truediv h ab) py_round3 else Inr (Fin 0)) = Inr (Fin avg)"
    by blast
  from rate_bounded [of "h + bb + hbp" "ab + bb + hbp + sf"] b obtain obp where
    obp: "(if 0 < ab + bb + hbp + sf
           then ebind (py_truediv (h + bb + hbp) (ab + bb + hbp + sf)) py_round3
           else Inr (Fin 0)) = Inr (Fin obp)" "\<bar>obp\<bar> \<le> 2 ^ 1001"
    by blast
  from rate_bounded [of "h - double - triple - hr + 2 * double + 3 * triple + 4 * hr" ab] b
  obtain slg where
    slg: "(if 0 < ab
           then ebind (py_truediv (h - double - triple - hr + 2 * double + 3 * triple + 4 * hr) ab)
                  py_round3
           else Inr (Fin 0)) = Inr (Fin slg)" "\<bar>slg\<bar> \<le> 2 ^ 1001"
    by blast
  from ops_defined [OF obp(2) slg(2)] obtain ops where
    ops: "py_round3 (py_fadd (Fin obp) (Fin slg)) = Inr (Fin ops)" by blast
  show ?thesis
    unfolding compute_derived_stats_from_raw_def Let_def avg obp(1) slg(1)
    using ops by (simp add: ebind_def)
qed

subsection \<open>Accuracy of the rounded quotients\<close>

lemma nearest_double_err:
  assumes "nearest_double q = Fin w"
  shows "\<bar>w - q\<bar> \<le> \<bar>q\<bar> / 2 ^ 53 + 1 / 2 ^ 1075"
proof (cases "q = 0")
  case True
  with assms show ?thesis by (simp add: nearest_double_def)
next
  case False
  define p where "p = \<bar>q\<bar>"
  have p: "0 < p" using False by (simp add: p_def)
  define k where "k = floor_log2 p"
  define e where "e = max (k - 52) (- 1074)"
  define m where "m = round_half_even (p / 2 powi e)"
  define v :: rat where "v = of_int m * 2 powi e"
  from floor_log2_bounds [OF p] have b: "2 powi k \<le> p" by (simp add: k_def)
  have epos: "(0::rat) < 2 powi e" by (simp add: zero_less_power_int)
  have w: "w = sgn q * v"
    using assms False unfolding nearest_double_def Let_def p_def [symmetric] k_def [symmetric]
      e_def [symmetric] m_def [symmetric] v_def [symmetric]
    by (simp split: if_splits)
  have "\<bar>of_int m - p / 2 powi e\<bar> \<le> 1 / 2" unfolding m_def by (rule round_half_even_err)
  then have "\<bar>of_int m - p / 2 powi e\<bar> * 2 powi e \<le> 1 / 2 * 2 powi e"
    using epos by (intro mult_right_mono) simp_all
  moreover have "\<bar>of_int m - p / 2 powi e\<bar> * 2 powi e = \<bar>v - p\<bar>"
  proof -
    have "\<bar>of_int m - p / 2 powi e\<bar> * 2 powi e = \<bar>(of_int m - p / 2 powi e) * 2 powi e\<bar>"
      using epos by (simp add: abs_mult)
    also have "(of_int m - p / 2 powi e) * 2 powi e = v - p"
      using epos by (simp add: v_def field_simps)
    finally show ?thesis .
  qed
  ultimately have vp: "\<bar>v - p\<bar> \<le> 2 powi e / 2" by simp
  have eb: "(2::rat) powi e / 2 \<le> p / 2 ^ 53 + 1 / 2 ^ 1075"
  proof (cases "- 1074 \<le> k - 52")
    case True
    then have "e = k - 52" by (simp add: e_def)
    then have "(2::rat) powi e = 2 powi k / 2 ^ 52" by (simp add: power_int_diff)
    also have "\<dots> \<le> p / 2 ^ 52" using b by (simp add: divide_right_mono)
    finally have "(2::rat) powi e / 2 \<le> p / 2 ^ 52 / 2" by (simp add: divide_right_mono)
    also have "\<dots> = p / 2 ^ 53" by simp
    finally show ?thesis by simp
  next
    case False
    then have "e = - 1074" by (simp add: e_def)
    then have "(2::rat) powi e / 2 = 1 / 2 ^ 1075" by (simp add: power_int_minus field_simps)
    then show ?thesis using p by simp
  qed
  have qp: "q = sgn q * p" by (simp add: p_def mult_sgn_abs)
  have "w - q = sgn q * v - sgn q * p" using w qp by simp
  then have "w - q = sgn q * (v - p)" by (simp add: algebra_simps)
  then have "\<bar>w - q\<bar> = \<bar>sgn q * (v - p)\<bar>" by simp
  also have "\<dots> = \<bar>v - p\<bar>" using False by (simp add: abs_mult abs_sgn_eq)
  finally show ?thesis using vp eb by (simp add: p_def)
qed

lemma rate_err:
  assumes b: "0 < b" and r: "ebind (py_truediv a b) py_round3 = Inr x"
  shows "\<exists>s. x = Fin s \<and>
     \<bar>s - of_int a / of_int b\<bar> \<le> 1 / 2000 + (\<bar>of_int a / of_int b\<bar> + 1) / 2 ^ 51"
proof -
  define q :: rat where "q = of_int a / of_int b"
  define d :: rat where "d = 1 / 2 ^ 1075"
  from r obtain y where y: "nearest_double q = Fin y" "py_round3 (Fin y) = Inr x"
    using b by (auto simp: ebind_Inr_iff py_truediv_def q_def split: pyfloat.splits)
  define z :: rat where "z = of_int (round_half_even (y * 1000)) / 1000"
  have pr: "py_round3 (Fin y)
      = (case nearest_double z of Fin w \<Rightarrow> Inr (Fin w) | _ \<Rightarrow> Inl OverflowError)"
    by (simp add: py_round3_def z_def)
  have "\<exists>s. x = Fin s \<and> nearest_double z = Fin s"
    using y(2) unfolding pr by (cases "nearest_double z") auto
  then obtain s where s: "x = Fin s" "nearest_double z = Fin s" by blast
  have d: "0 \<le> d" "d \<le> 1 / 2 ^ 53" by (simp_all add: d_def)
  have e1: "\<bar>y - q\<bar> \<le> \<bar>q\<bar> / 2 ^ 53 + d" using nearest_double_err [OF y(1)] by (simp add: d_def)
  have e3: "\<bar>s - z\<bar> \<le> \<bar>z\<bar> / 2 ^ 53 + d" using nearest_double_err [OF s(2)] by (simp add: d_def)
  have "\<bar>of_int (round_half_even (y * 1000)) - y * 1000\<bar> \<le> 1 / 2" by (rule round_half_even_err)
  then have e2: "\<bar>z - y\<bar> \<le> 1 / 2000"
    by (simp add: z_def abs_if field_simps split: if_splits)
  have zb: "\<bar>z\<bar> \<le> \<bar>q\<bar> + \<bar>q\<bar> / 2 ^ 53 + d + 1 / 2000" using e1 e2 by linarith
  then have "\<bar>z\<bar> / 2 ^ 53 \<le> (\<bar>q\<bar> + \<bar>q\<bar> / 2 ^ 53 + d + 1 / 2000) / 2 ^ 53"
    by (simp add: divide_right_mono)
  then have zb': "\<bar>z\<bar> / 2 ^ 53 \<le> \<bar>q\<bar> / 2 ^ 53 + \<bar>q\<bar> / 2 ^ 53 + d + 1 / 2 ^ 53"
  proof -
    assume h: "\<bar>z\<bar> / 2 ^ 53 \<le> (\<bar>q\<bar> + \<bar>q\<bar> / 2 ^ 53 + d + 1 / 2000) / 2 ^ 53"
    define A where "A = \<bar>q\<bar> / 2 ^ 53"
    have "0 \<le> A" by (simp add: A_def)
    then have "A / 2 ^ 53 \<le> A" by (simp add: field_simps)
    then have 1: "\<bar>q\<bar> / 2 ^ 53 / 2 ^ 53 \<le> \<bar>q\<bar> / 2 ^ 53" by (simp only: A_def)
    have 2: "d / 2 ^ 53 \<le> d" using d(1) by (simp add: field_simps)
    have 3: "(1::rat) / 2000 / 2 ^ 53 \<le> 1 / 2 ^ 53" by simp
    have "(\<bar>q\<bar> + \<bar>q\<bar> / 2 ^ 53 + d + 1 / 2000) / 2 ^ 53
        = \<bar>q\<bar> / 2 ^ 53 + \<bar>q\<bar> / 2 ^ 53 / 2 ^ 53 + d / 2 ^ 53 + 1 / 2000 / 2 ^ 53"
      by (simp add: add_divide_distrib)
    with h 1 2 3 show ?thesis by linarith
  qed
  have "\<bar>s - q\<bar> \<le> \<bar>s - z\<bar> + \<bar>z - y\<bar> + \<bar>y - q\<bar>" by linarith
  also have "\<dots> \<le> 1 / 2000 + 3 * (\<bar>q\<bar> / 2 ^ 53) + 3 * d + 1 / 2 ^ 53"
    using e1 e2 e3 zb' by linarith
  also have "\<dots> \<le> 1 / 2000 + 4 * (\<bar>q\<bar> / 2 ^ 53) + 4 * (1 / 2 ^ 53)"
    using d by (simp add: field_simps)
  also have "\<dots> = 1 / 2000 + (\<bar>q\<bar> + 1) / 2 ^ 51" by (simp add: field_simps)
  finally show ?thesis using s(1) by (auto simp: q_def)
qed

lemma slg_total_bases:
  assumes b: "0 < ab" and r: "ebind (py_truediv tb ab) py_round3 = Inr x"
  shows "\<exists>s. x = Fin s \<and>
     \<bar>of_int ab * s - of_int tb\<bar> \<le> of_int ab / 2000 + (\<bar>of_int tb\<bar> + of_int ab) / 2 ^ 51"
proof -
  define B :: rat where "B = of_int ab"
  define T :: rat where "T = of_int tb"
  have B: "0 < B" using b by (simp add: B_def)
  from rate_err [OF b r] obtain s where
    s: "x = Fin s" "\<bar>s - T / B\<bar> \<le> 1 / 2000 + (\<bar>T / B\<bar> + 1) / 2 ^ 51"
    by (auto simp: B_def T_def)
  have "B * s - T = B * (s - T / B)" using B by (simp add: field_simps)
  then have "\<bar>B * s - T\<bar> = B * \<bar>s - T / B\<bar>" using B by (simp add: abs_mult)
  also have "\<dots> \<le> B * (1 / 2000 + (\<bar>T / B\<bar> + 1) / 2 ^ 51)"
    using s(2) B by (simp add: mult_left_mono)
  also have "\<dots> = B / 2000 + (B * \<bar>T / B\<bar> + B) / 2 ^ 51" by (simp add: field_simps)
  also have "B * \<bar>T / B\<bar> = \<bar>T\<bar>" using B by (simp add: abs_divide)
  finally show ?thesis using s(1) by (auto simp: B_def T_def)
qed


subsection \<open>Doubles round to doubles\<close>

text \<open>
  A value that \<open>nearest_double\<close> returns is a double, that is, a fixed point of
  \<open>nearest_double\<close>; rounding a double to three decimals never overflows (from \<open>2 ^ 53\<close> on
  a double is an integer and rounds to itself), and neither does the rounding of the
  sum of two floats, since \<open>round\<close> returns an infinity unchanged.
\<close>

lemma nearest_double_minus:
  "nearest_double (- q) = (case nearest_double q of
      Fin w \<Rightarrow> Fin (- w) | PInf \<Rightarrow> NInf | NInf \<Rightarrow> PInf | NaN \<Rightarrow> NaN)"
proof (cases "q = 0")
  case True
  then show ?thesis by (simp add: nearest_double_def)
next
  case False
  then show ?thesis
    unfolding nearest_double_def Let_def
    by (cases "0 < q") (simp_all add: sgn_minus not_less)
qed

lemma nearest_double_exact:
  assumes M: "0 < M" "M < 2 ^ 53" and E: "- 1074 \<le> E"
    and fin: "of_int M * 2 powi E < (2::rat) ^ 1024"
  shows "nearest_double (of_int M * 2 powi E) = Fin (of_int M * 2 powi E)"
proof -
  define w :: rat where "w = of_int M * 2 powi E"
  have Epos: "(0::rat) < 2 powi E" by (simp add: zero_less_power_int)
  have w: "0 < w" unfolding w_def using M(1) Epos by simp
  define k where "k = floor_log2 w"
  define e where "e = max (k - 52) (- 1074)"
  from floor_log2_bounds [OF w] have b: "2 powi k \<le> w" "w < 2 powi (k + 1)"
    by (simp_all add: k_def)
  have "(of_int M :: rat) < of_int (2 ^ 53)" using M(2) by (simp only: of_int_less_iff)
  then have "w < 2 ^ 53 * 2 powi E" unfolding w_def using Epos by simp
  also have "\<dots> = 2 powi (53 + E)" by (simp add: power_int_add)
  finally have "(2::rat) powi k < 2 powi (53 + E)" using b(1) by simp
  then have "k < 53 + E" by (smt (verit) power_int_increasing one_le_numeral not_le)
  then have eE: "e \<le> E" using E by (simp add: e_def)
  define j where "j = nat (E - e)"
  have Ej: "E = int j + e" using eE by (simp add: j_def)
  have epos: "(0::rat) < 2 powi e" by (simp add: zero_less_power_int)
  have pE: "(2::rat) powi E = 2 ^ j * 2 powi e"
  proof -
    have "(2::rat) powi E = 2 powi (int j) * 2 powi e" unfolding Ej by (simp add: power_int_add)
    then show ?thesis by simp
  qed
  have sc: "w / 2 powi e = of_int (M * 2 ^ j)"
    unfolding w_def pE using epos by simp
  have m: "round_half_even (w / 2 powi e) = M * 2 ^ j"
    by (simp only: sc round_half_even_of_int)
  have "of_int (round_half_even (w / 2 powi e)) * (2::rat) powi e
      = of_int (M * 2 ^ j) * 2 powi e" by (simp only: m)
  also have "\<dots> = w" by (simp add: w_def pE)
  finally have v: "of_int (round_half_even (w / 2 powi e)) * (2::rat) powi e = w" .
  have ab: "\<bar>w\<bar> = w" "sgn w = 1" "w \<noteq> 0" using w by simp_all
  have "nearest_double w = Fin w"
    unfolding nearest_double_def Let_def ab k_def [symmetric] e_def [symmetric] v
    using fin w by (simp add: w_def)
  then show ?thesis by (simp only: w_def)
qed

lemma nearest_double_idem:
  assumes "nearest_double q = Fin w"
  shows "nearest_double w = Fin w"
proof (cases "q = 0")
  case True
  with assms show ?thesis by (auto simp: nearest_double_def)
next
  case False
  define p where "p = \<bar>q\<bar>"
  have p: "0 < p" using False by (simp add: p_def)
  define k where "k = floor_log2 p"
  define e where "e = max (k - 52) (- 1074)"
  define m where "m = round_half_even (p / 2 powi e)"
  define v :: rat where "v = of_int m * 2 powi e"
  from floor_log2_bounds [OF p] have b: "2 powi k \<le> p" "p < 2 powi (k + 1)"
    by (simp_all add: k_def)
  have epos: "(0::rat) < 2 powi e" by (simp add: zero_less_power_int)
  have wv: "w = sgn q * v \<and> v < 2 ^ 1024"
    using assms False unfolding nearest_double_def Let_def p_def [symmetric] k_def [symmetric]
      e_def [symmetric] m_def [symmetric] v_def [symmetric]
    by (simp split: if_splits)
  have e1074: "- 1074 \<le> e" by (simp add: e_def)
  have "(2::rat) powi (k + 1) \<le> 2 powi (53 + e)"
    by (intro power_int_increasing) (simp_all add: e_def)
  also have "\<dots> = 2 ^ 53 * 2 powi e" by (simp add: power_int_add)
  finally have "p < 2 ^ 53 * 2 powi e" using b(2) by simp
  then have "p / 2 powi e \<le> of_int (2 ^ 53)" using epos by (simp add: field_simps)
  then have m53: "m \<le> 2 ^ 53" unfolding m_def by (rule round_half_even_le)
  have "of_int 0 \<le> p / 2 powi e" using p epos by simp
  then have m0: "0 \<le> m" unfolding m_def by (rule round_half_even_ge)
  have nv: "nearest_double v = Fin v"
  proof (cases "m = 0")
    case True
    then show ?thesis by (simp add: v_def nearest_double_def)
  next
    case nz: False
    show ?thesis
    proof (cases "m = 2 ^ 53")
      case True
      have v2: "v = of_int (2 ^ 52) * 2 powi (e + 1)"
        unfolding v_def True by (simp add: power_int_add)
      have "nearest_double (of_int (2 ^ 52) * 2 powi (e + 1)) = Fin (of_int (2 ^ 52) * 2 powi (e + 1))"
        using wv e1074 unfolding v2 by (intro nearest_double_exact) simp_all
      then show ?thesis by (simp only: v2)
    next
      case False
      with m53 m0 nz have "0 < m" "m < 2 ^ 53" by simp_all
      from nearest_double_exact [OF this e1074] wv show ?thesis by (simp add: v_def)
    qed
  qed
  show ?thesis
  proof (cases "0 < q")
    case True
    with wv nv show ?thesis by simp
  next
    case neg: False
    with False have "q < 0" by simp
    then have "w = - v" using wv by simp
    then show ?thesis using nearest_double_minus [of v] nv by simp
  qed
qed

lemma nearest_double_large_int:
  assumes nd: "nearest_double w = Fin w" and big: "2 ^ 53 \<le> \<bar>w\<bar>"
  shows "\<exists>n. w = of_int n"
proof -
  have nz: "w \<noteq> 0" using big by auto
  define p where "p = \<bar>w\<bar>"
  have p: "0 < p" using nz by (simp add: p_def)
  define k where "k = floor_log2 p"
  define e where "e = max (k - 52) (- 1074)"
  define m where "m = round_half_even (p / 2 powi e)"
  from floor_log2_bounds [OF p] have b: "p < 2 powi (k + 1)" by (simp add: k_def)
  have "(2::rat) powi 53 < 2 powi (k + 1)" using big b by (simp add: p_def)
  then have "53 < k + 1" by (smt (verit) power_int_increasing one_le_numeral not_le)
  then have e0: "0 \<le> e" by (simp add: e_def)
  have w: "w = sgn w * (of_int m * 2 powi e)"
    using nd nz unfolding nearest_double_def Let_def p_def [symmetric] k_def [symmetric]
      e_def [symmetric] m_def [symmetric]
    by (simp split: if_splits)
  have pe: "(2::rat) powi e = of_int (2 ^ nat e)" using e0 by (simp add: power_int_def)
  have "\<exists>s::int. sgn w = of_int s"
  proof (cases "0 < w")
    case True
    then have "sgn w = of_int 1" by simp
    then show ?thesis by blast
  next
    case False
    with nz have "sgn w = of_int (- 1)" by simp
    then show ?thesis by blast
  qed
  then obtain s :: int where s: "sgn w = of_int s" by blast
  have "w = of_int (s * (m * 2 ^ nat e))"
    using w unfolding s pe by simp
  then show ?thesis by blast
qed

lemma py_round3_total:
  assumes nd: "nearest_double w = Fin w"
  shows "\<exists>u. py_round3 (Fin w) = Inr (Fin u)"
proof (cases "\<bar>w\<bar> \<le> 2 ^ 53")
  case True
  from py_round3_bounded [OF True] show ?thesis by auto
next
  case False
  then have "2 ^ 53 \<le> \<bar>w\<bar>" by simp
  from nearest_double_large_int [OF nd this] obtain n where n: "w = of_int n" by blast
  have "w * 1000 = of_int (n * 1000)" by (simp add: n)
  then have "round_half_even (w * 1000) = n * 1000" by (simp only: round_half_even_of_int)
  then have "of_int (round_half_even (w * 1000)) / 1000 = w" by (simp add: n)
  then show ?thesis using nd by (simp add: py_round3_def)
qed

lemma py_truediv_Inr:
  assumes "py_truediv a b = Inr x"
  shows "\<exists>v. x = Fin v \<and> nearest_double (of_int a / of_int b) = Fin v"
proof (cases "b = 0")
  case True
  with assms show ?thesis by (simp add: py_truediv_def)
next
  case False
  with assms show ?thesis
    by (cases "nearest_double (of_int a / of_int b)") (auto simp: py_truediv_def)
qed

lemma py_round3_Inr:
  assumes "py_round3 (Fin v) = Inr x"
  shows "\<exists>u. x = Fin u"
  using assms
  by (cases "nearest_double (of_int (round_half_even (v * 1000)) / 1000)")
     (auto simp: py_round3_def)

lemma rate_raises_iff:
  "(if 0 < b then ebind (py_truediv a b) py_round3 else Inr (Fin 0)) = Inl e \<longleftrightarrow>
     0 < b \<and> py_truediv a b = Inl e"
proof (cases "0 < b")
  case False
  then show ?thesis by simp
next
  case True
  show ?thesis
  proof (cases "py_truediv a b")
    case (Inl e')
    with True show ?thesis by (simp add: ebind_def)
  next
    case (Inr x)
    from py_truediv_Inr [OF Inr] obtain v where
      v: "x = Fin v" "nearest_double (of_int a / of_int b) = Fin v" by blast
    from py_round3_total [OF nearest_double_idem [OF v(2)]] obtain u where
      "py_round3 (Fin v) = Inr (Fin u)" by blast
    with Inr v True show ?thesis by (simp add: ebind_def)
  qed
qed

lemma rate_finite:
  assumes "(if 0 < b then ebind (py_truediv a b) py_round3 else Inr (Fin 0)) = Inr x"
  shows "\<exists>v. x = Fin v"
proof (cases "0 < b")
  case False
  with assms show ?thesis by auto
next
  case True
  with assms obtain y where y: "py_truediv a b = Inr y" "py_round3 y = Inr x"
    by (auto simp: ebind_Inr_iff)
  from py_truediv_Inr [OF y(1)] obtain v where "y = Fin v" by blast
  with y(2) py_round3_Inr show ?thesis by blast
qed

lemma ops_total: "\<exists>x. py_round3 (py_fadd (Fin a) (Fin b)) = Inr x"
proof (cases "nearest_double (a + b)")
  case (Fin s)
  from py_round3_total [OF nearest_double_idem [OF Fin]] Fin show ?thesis by auto
qed (simp_all add: py_round3_def)

subsection \<open>When a quotient is too large for a float\<close>

text \<open>
  The largest double is \<open>2 ^ 1024 - 2 ^ 971\<close>; a value rounds to it, and not to an
  infinity, exactly when it is below \<open>2 ^ 1024 - 2 ^ 970\<close>.
\<close>

lemma round_half_even_up:
  assumes "even n" "of_int n - 1 / 2 \<le> x"
  shows "n \<le> round_half_even x"
proof -
  have "of_int (n - 1) \<le> x" using assms(2) by simp
  then have f: "n - 1 \<le> \<lfloor>x\<rfloor>" by (simp add: le_floor_iff)
  show ?thesis
  proof (cases "n \<le> \<lfloor>x\<rfloor>")
    case True
    then show ?thesis unfolding round_half_even_def Let_def by auto
  next
    case False
    with f have fl: "\<lfloor>x\<rfloor> = n - 1" by simp
    have odd: "odd (n - 1)" using assms(1) by simp
    have "1 / 2 \<le> x - of_int (n - 1)" using assms(2) by simp
    then show ?thesis unfolding round_half_even_def Let_def fl using odd by auto
  qed
qed

lemma round_half_even_below:
  assumes "x < of_int n - 1 / 2"
  shows "round_half_even x < n"
proof -
  have "\<bar>of_int (round_half_even x) - x\<bar> \<le> 1 / 2" by (rule round_half_even_err)
  then have "of_int (round_half_even x) < (of_int n :: rat)" using assms by linarith
  then show ?thesis by (simp only: of_int_less_iff)
qed

lemma nearest_double_top_binade:
  assumes lo: "2 ^ 1023 \<le> p" and hi: "p < 2 ^ 1024"
  shows "(\<exists>w. nearest_double p = Fin w) \<longleftrightarrow> p < 2 ^ 1024 - 2 ^ 970"
proof -
  have p: "0 < p" using lo by (rule less_le_trans [rotated]) simp
  have klo: "2 powi 1023 \<le> p" using lo by simp
  have khi: "p < 2 powi (1023 + 1)" using hi by simp
  define m where "m = round_half_even (p / 2 powi (1023 - 52))"
  have nd: "nearest_double p =
    (if 2 ^ 1024 \<le> of_int m * (2::rat) powi (1023 - 52) then PInf
     else Fin (of_int m * 2 powi (1023 - 52)))"
    unfolding m_def by (rule nearest_double_normal [OF p klo khi]) simp
  have pe: "(2::rat) powi (1023 - 52) = 2 ^ 971" by simp
  have big: "2 ^ 1024 \<le> of_int m * (2::rat) powi (1023 - 52) \<longleftrightarrow> 2 ^ 53 \<le> m"
  proof -
    have "(2::rat) ^ 1024 = of_int (2 ^ 53) * 2 ^ 971" by simp
    then have "2 ^ 1024 \<le> of_int m * (2::rat) ^ 971 \<longleftrightarrow> (of_int (2 ^ 53) :: rat) \<le> of_int m"
      by (simp only: mult_le_cancel_right) simp
    then show ?thesis unfolding pe by (simp only: of_int_le_iff)
  qed
  have th: "2 ^ 53 \<le> m \<longleftrightarrow> 2 ^ 1024 - 2 ^ 970 \<le> p"
  proof
    assume "2 ^ 53 \<le> m"
    then have "\<not> m < 2 ^ 53" by simp
    then have "\<not> p / 2 ^ 971 < of_int (2 ^ 53) - 1 / 2"
      using round_half_even_below [of "p / 2 ^ 971" "2 ^ 53"] unfolding m_def pe by blast
    then have "of_int (2 ^ 53) - 1 / 2 \<le> p / 2 ^ 971" by simp
    then have "(of_int (2 ^ 53) - 1 / 2) * 2 ^ 971 \<le> p" by (simp add: field_simps)
    moreover have "(of_int (2 ^ 53) - 1 / 2) * 2 ^ 971 = (2::rat) ^ 1024 - 2 ^ 970" by simp
    ultimately show "2 ^ 1024 - 2 ^ 970 \<le> p" by simp
  next
    assume a: "2 ^ 1024 - 2 ^ 970 \<le> p"
    have "(of_int (2 ^ 53) - 1 / 2) * 2 ^ 971 = (2::rat) ^ 1024 - 2 ^ 970" by simp
    with a have "(of_int (2 ^ 53) - 1 / 2) * 2 ^ 971 \<le> p" by simp
    then have "of_int (2 ^ 53) - 1 / 2 \<le> p / 2 ^ 971" by (simp add: field_simps)
    then show "2 ^ 53 \<le> m" unfolding m_def pe by (intro round_half_even_up) simp_all
  qed
  show ?thesis unfolding nd big th by auto
qed

lemma nearest_double_finite_pos:
  assumes p: "0 \<le> p"
  shows "(\<exists>w. nearest_double p = Fin w) \<longleftrightarrow> p < 2 ^ 1024 - 2 ^ 970"
proof (cases "p < 2 ^ 1023")
  case True
  then have "\<bar>p\<bar> \<le> 2 ^ 1023" using p by simp
  from nearest_double_bounded [OF this] have "\<exists>w. nearest_double p = Fin w" by auto
  moreover have "(2::rat) ^ 1023 \<le> 2 ^ 1024 - 2 ^ 970" by simp
  ultimately show ?thesis using True by simp
next
  case False
  then have lo: "2 ^ 1023 \<le> p" by simp
  show ?thesis
  proof (cases "p < 2 ^ 1024")
    case True
    from nearest_double_top_binade [OF lo True] show ?thesis .
  next
    case False
    then have "2 ^ 1024 \<le> p" by simp
    from nearest_double_overflow [OF this] False show ?thesis by simp
  qed
qed

lemma nearest_double_finite_iff:
  "(\<exists>w. nearest_double q = Fin w) \<longleftrightarrow> \<bar>q\<bar> < 2 ^ 1024 - 2 ^ 970"
proof (cases "0 \<le> q")
  case True
  with nearest_double_finite_pos [OF True] show ?thesis by simp
next
  case False
  then have n: "0 \<le> - q" by simp
  have "(\<exists>w. nearest_double q = Fin w) \<longleftrightarrow> (\<exists>w. nearest_double (- q) = Fin w)"
    unfolding nearest_double_minus [of q] by (cases "nearest_double q") simp_all
  with nearest_double_finite_pos [OF n] False show ?thesis by simp
qed

lemma py_truediv_overflow_iff:
  assumes "b \<noteq> 0"
  shows "py_truediv a b = Inl e \<longleftrightarrow>
           e = OverflowError \<and> 2 ^ 1024 - 2 ^ 970 \<le> \<bar>of_int a / of_int b :: rat\<bar>"
proof -
  have "py_truediv a b = Inl e \<longleftrightarrow>
          e = OverflowError \<and> \<not> (\<exists>w. nearest_double (of_int a / of_int b) = Fin w)"
    using assms by (cases "nearest_double (of_int a / of_int b)") (auto simp: py_truediv_def)
  then show ?thesis unfolding nearest_double_finite_iff by (simp add: not_less)
qed

lemma rate_overflow_iff:
  "(if 0 < b then ebind (py_truediv a b) py_round3 else Inr (Fin 0)) = Inl e \<longleftrightarrow>
     e = OverflowError \<and> 0 < b \<and> 2 ^ 1024 - 2 ^ 970 \<le> \<bar>of_int a / of_int b :: rat\<bar>"
proof (cases "0 < b")
  case True
  then have "b \<noteq> 0" by simp
  from py_truediv_overflow_iff [OF this] True show ?thesis
    unfolding rate_raises_iff by auto
next
  case False
  then show ?thesis by simp
qed

lemma derived_raises_iff:
  "compute_derived_stats_from_raw ab h double triple hr bb hbp sf sh = Inl e \<longleftrightarrow>
     e = OverflowError \<and>
     (0 < ab \<and> 2 ^ 1024 - 2 ^ 970 \<le> \<bar>of_int h / of_int ab :: rat\<bar> \<or>
      0 < ab + bb + hbp + sf \<and>
        2 ^ 1024 - 2 ^ 970 \<le> \<bar>of_int (h + bb + hbp) / of_int (ab + bb + hbp + sf) :: rat\<bar> \<or>
      0 < ab \<and>
        2 ^ 1024 - 2 ^ 970
          \<le> \<bar>of_int (h - double - triple - hr + 2 * double + 3 * triple + 4 * hr) / of_int ab :: rat\<bar>)"
proof -
  define A where "A = (if 0 < ab then ebind (py_truediv h ab) py_round3 else Inr (Fin 0))"
  define B where "B = (if 0 < ab + bb + hbp + sf
      then ebind (py_truediv (h + bb + hbp) (ab + bb + hbp + sf)) py_round3 else Inr (Fin 0))"
  define C where "C = (if 0 < ab
      then ebind (py_truediv (h - double - triple - hr + 2 * double + 3 * triple + 4 * hr) ab)
             py_round3
      else Inr (Fin 0))"
  have c: "compute_derived_stats_from_raw ab h double triple hr bb hbp sf sh =
      ebind A (\<lambda>avg. ebind B (\<lambda>obp. ebind C (\<lambda>slg.
        ebind (py_round3 (py_fadd obp slg)) (\<lambda>ops.
          Inr \<lparr>d_singles = h - double - triple - hr, d_PA = ab + bb + hbp + sf + sh,
               d_TB = h - double - triple - hr + 2 * double + 3 * triple + 4 * hr,
               d_AVG = avg, d_OBP = obp, d_SLG = slg, d_OPS = ops\<rparr>))))"
    unfolding compute_derived_stats_from_raw_def Let_def A_def B_def C_def ..
  have fa: "\<exists>v. x = Fin v" if "A = Inr x" for x using that unfolding A_def by (rule rate_finite)
  have fb: "\<exists>v. x = Fin v" if "B = Inr x" for x using that unfolding B_def by (rule rate_finite)
  have fc: "\<exists>v. x = Fin v" if "C = Inr x" for x using that unfolding C_def by (rule rate_finite)
  have "compute_derived_stats_from_raw ab h double triple hr bb hbp sf sh = Inl e \<longleftrightarrow>
      A = Inl e \<or> B = Inl e \<or> C = Inl e" if "e = OverflowError"
  proof (cases A)
    case (Inl e1)
    then have "e1 = OverflowError" unfolding A_def by (rule rate_error)
    with Inl that show ?thesis unfolding c by (simp add: ebind_def)
  next
    case a: (Inr avg)
    show ?thesis
    proof (cases B)
      case (Inl e1)
      then have "e1 = OverflowError" unfolding B_def by (rule rate_error)
      with Inl a that show ?thesis unfolding c by (simp add: ebind_def)
    next
      case b: (Inr obp)
      show ?thesis
      proof (cases C)
        case (Inl e1)
        then have "e1 = OverflowError" unfolding C_def by (rule rate_error)
        with Inl a b that show ?thesis unfolding c by (simp add: ebind_def)
      next
        case cc: (Inr slg)
        from fb [OF b] fc [OF cc] obtain x y where xy: "obp = Fin x" "slg = Fin y" by blast
        from ops_total [of x y] obtain ops where "py_round3 (py_fadd (Fin x) (Fin y)) = Inr ops"
          by blast
        with a b cc xy show ?thesis unfolding c by (simp add: ebind_def)
      qed
    qed
  qed
  moreover have "e = OverflowError"
    if "compute_derived_stats_from_raw ab h double triple hr bb hbp sf sh = Inl e"
    using that by (rule derived_error)
  ultimately show ?thesis
    unfolding A_def B_def C_def rate_overflow_iff by blast
qed


subsection \<open>Concrete stat lines\<close>

lemma round_half_even_numeral_int: "round_half_even (numeral a) = numeral a"
  using round_half_even_of_int [of "numeral a"] by simp

lemma nearest_double_tenth:
  "nearest_double (1 / 10) = Fin (3602879701896397 / 36028797018963968)"
  using nearest_double_eval [of 1 10 56] by (simp add: round_half_even_numeral)

lemma nearest_double_fifth:
  "nearest_double (1 / 5) = Fin (3602879701896397 / 18014398509481984)"
  using nearest_double_eval [of 1 5 55] by (simp add: round_half_even_numeral)

lemma nearest_double_three_tenths:
  "nearest_double (3 / 10) = Fin (5404319552844595 / 18014398509481984)"
  using nearest_double_eval [of 3 10 54] by (simp add: round_half_even_numeral)

lemma nearest_double_tenth_plus_fifth:
  "nearest_double (10808639105689191 / 36028797018963968)
     = Fin (1351079888211149 / 4503599627370496)"
  using nearest_double_eval [of 10808639105689191 36028797018963968 54]
  by (simp add: round_half_even_numeral)

lemma nearest_double_quarter: "nearest_double (1 / 4) = Fin (1 / 4)"
  using nearest_double_eval [of 1 4 54] by (simp add: round_half_even_numeral_int)

lemma nearest_double_half: "nearest_double (1 / 2) = Fin (1 / 2)"
  using nearest_double_eval [of 1 2 53] by (simp add: round_half_even_numeral_int)

lemma derived_one_for_ten:
  "compute_derived_stats_from_raw 10 1 1 0 0 0 0 0 0
     = Inr \<lparr>d_singles = 0, d_PA = 10, d_TB = 2,
          d_AVG = Fin (3602879701896397 / 36028797018963968),
          d_OBP = Fin (3602879701896397 / 36028797018963968),
          d_SLG = Fin (3602879701896397 / 18014398509481984),
          d_OPS = Fin (5404319552844595 / 18014398509481984)\<rparr>"
  by (simp add: compute_derived_stats_from_raw_def ebind_def py_truediv_def py_round3_def
        nearest_double_tenth nearest_double_fifth nearest_double_three_tenths
        nearest_double_tenth_plus_fifth round_half_even_numeral round_half_even_numeral_int)

lemma derived_one_for_four:
  "compute_derived_stats_from_raw 4 1 0 0 0 0 0 0 0
     = Inr \<lparr>d_singles = 1, d_PA = 4, d_TB = 1, d_AVG = Fin (1 / 4), d_OBP = Fin (1 / 4),
          d_SLG = Fin (1 / 4), d_OPS = Fin (1 / 2)\<rparr>"
  by (simp add: compute_derived_stats_from_raw_def ebind_def py_truediv_def py_round3_def
        nearest_double_quarter nearest_double_half round_half_even_numeral
        round_half_even_numeral_int)

lemma py_truediv_overflow: "py_truediv (2 ^ 1024) 1 = Inl OverflowError"
proof -
  have "nearest_double (of_int (2 ^ 1024) / of_int 1) = PInf"
    by (rule nearest_double_overflow) simp
  then show ?thesis unfolding py_truediv_def by simp
qed

lemma derived_overflow:
  "py_truediv h 1 = Inl e \<Longrightarrow> compute_derived_stats_from_raw 1 h 0 0 0 0 0 0 0 = Inl e"
  unfolding compute_derived_stats_from_raw_def Let_def by (simp add: ebind_def)


subsection \<open>The stat calculator\<close>

text \<open>
  Claim C2, as amended. For all integer inputs \<open>compute_derived_stats_from_raw\<close> either raises
  \<open>OverflowError\<close> (the only exception it can raise: every division is guarded, so
  \<open>ZeroDivisionError\<close> is impossible) or returns \<open>singles = H - doubles - triples - HR\<close>,
  \<open>PA = AB + BB + HBP + SF + SH\<close>, \<open>TB = singles + 2*doubles + 3*triples + 4*HR\<close>,
  \<open>AVG = round(H / AB, 3)\<close> if \<open>AB > 0\<close> else \<open>0.0\<close>,
  \<open>OBP = round((H + BB + HBP) / (AB + BB + HBP + SF), 3)\<close> if that denominator is positive
  else \<open>0.0\<close>, and \<open>SLG = round(TB / AB, 3)\<close> if \<open>AB > 0\<close> else \<open>0.0\<close>. It raises exactly when
  one of the divisions it performs has a quotient too large for a float, that is, of
  absolute value at least \<open>2 ^ 1024 - 2 ^ 970\<close>; the roundings to three decimals and the sum
  for OPS never raise. In particular it returns whenever the three numerators \<open>H\<close>,
  \<open>H + BB + HBP\<close> and \<open>TB\<close> are at most \<open>2 ^ 1000\<close> in absolute value.
\<close>

theorem compute_derived_stats_from_raw_result:
  "(compute_derived_stats_from_raw ab h double triple hr bb hbp sf sh = Inl OverflowError \<or>
    (\<exists>r. compute_derived_stats_from_raw ab h double triple hr bb hbp sf sh = Inr r \<and>
       d_singles r = h - double - triple - hr \<and>
       d_PA r = ab + bb + hbp + sf + sh \<and>
       d_TB r = d_singles r + 2 * double + 3 * triple + 4 * hr \<and>
       Inr (d_AVG r) = (if 0 < ab then ebind (py_truediv h ab) py_round3 else Inr (Fin 0)) \<and>
       Inr (d_OBP r) = (if 0 < ab + bb + hbp + sf
                        then ebind (py_truediv (h + bb + hbp) (ab + bb + hbp + sf)) py_round3
                        else Inr (Fin 0)) \<and>
       Inr (d_SLG r) = (if 0 < ab then ebind (py_truediv (d_TB r) ab) py_round3
                        else Inr (Fin 0)))) \<and>
   (compute_derived_stats_from_raw ab h double triple hr bb hbp sf sh = Inl OverflowError \<longleftrightarrow>
      0 < ab \<and> 2 ^ 1024 - 2 ^ 970 \<le> \<bar>of_int h / of_int ab :: rat\<bar> \<or>
      0 < ab + bb + hbp + sf \<and>
        2 ^ 1024 - 2 ^ 970 \<le> \<bar>of_int (h + bb + hbp) / of_int (ab + bb + hbp + sf) :: rat\<bar> \<or>
      0 < ab \<and>
        2 ^ 1024 - 2 ^ 970
          \<le> \<bar>of_int (h - double - triple - hr + 2 * double + 3 * triple + 4 * hr) / of_int ab :: rat\<bar>) \<and>
   (\<bar>h\<bar> \<le> 2 ^ 1000 \<and> \<bar>h + bb + hbp\<bar> \<le> 2 ^ 1000 \<and>
    \<bar>h - double - triple - hr + 2 * double + 3 * triple + 4 * hr\<bar> \<le> 2 ^ 1000 \<longrightarrow>
    (\<exists>r. compute_derived_stats_from_raw ab h double triple hr bb hbp sf sh = Inr r))"
proof (intro conjI impI)
  show "compute_derived_stats_from_raw ab h double triple hr bb hbp sf sh = Inl OverflowError \<or>
    (\<exists>r. compute_derived_stats_from_raw ab h double triple hr bb hbp sf sh = Inr r \<and>
       d_singles r = h - double - triple - hr \<and>
       d_PA r = ab + bb + hbp + sf + sh \<and>
       d_TB r = d_singles r + 2 * double + 3 * triple + 4 * hr \<and>
       Inr (d_AVG r) = (if 0 < ab then ebind (py_truediv h ab) py_round3 else Inr (Fin 0)) \<and>
       Inr (d_OBP r) = (if 0 < ab + bb + hbp + sf
                        then ebind (py_truediv (h + bb + hbp) (ab + bb + hbp + sf)) py_round3
                        else Inr (Fin 0)) \<and>
       Inr (d_SLG r) = (if 0 < ab then ebind (py_truediv (d_TB r) ab) py_round3
                        else Inr (Fin 0)))"
  proof (cases "compute_derived_stats_from_raw ab h double triple hr bb hbp sf sh")
    case (Inl e)
    with derived_error [OF Inl] show ?thesis by simp
  next
    case (Inr r)
    from derived_fields [OF Inr] Inr show ?thesis by blast
  qed
next
  show "compute_derived_stats_from_raw ab h double triple hr bb hbp sf sh = Inl OverflowError \<longleftrightarrow>
      0 < ab \<and> 2 ^ 1024 - 2 ^ 970 \<le> \<bar>of_int h / of_int ab :: rat\<bar> \<or>
      0 < ab + bb + hbp + sf \<and>
        2 ^ 1024 - 2 ^ 970 \<le> \<bar>of_int (h + bb + hbp) / of_int (ab + bb + hbp + sf) :: rat\<bar> \<or>
      0 < ab \<and>
        2 ^ 1024 - 2 ^ 970
          \<le> \<bar>of_int (h - double - triple - hr + 2 * double + 3 * triple + 4 * hr) / of_int ab :: rat\<bar>"
    unfolding derived_raises_iff by simp
next
  assume "\<bar>h\<bar> \<le> 2 ^ 1000 \<and> \<bar>h + bb + hbp\<bar> \<le> 2 ^ 1000 \<and>
    \<bar>h - double - triple - hr + 2 * double + 3 * triple + 4 * hr\<bar> \<le> 2 ^ 1000"
  then show "\<exists>r. compute_derived_stats_from_raw ab h double triple hr bb hbp sf sh = Inr r"
    by (intro derived_defined) simp_all
qed


text \<open>
  One hit in four at bats: every rate is \<open>0.25\<close>, no quotient is too large, and the call
  returns.
\<close>

theorem compute_derived_stats_from_raw_result_witness:
  "compute_derived_stats_from_raw 4 1 0 0 0 0 0 0 0
     = Inr \<lparr>d_singles = 1, d_PA = 4, d_TB = 1, d_AVG = Fin (1 / 4), d_OBP = Fin (1 / 4),
          d_SLG = Fin (1 / 4), d_OPS = Fin (1 / 2)\<rparr> \<and>
   ebind (py_truediv 1 4) py_round3 = Inr (Fin (1 / 4)) \<and>
   \<not> (2 ^ 1024 - 2 ^ 970 \<le> \<bar>of_int 1 / of_int 4 :: rat\<bar>) \<and>
   (\<exists>r. compute_derived_stats_from_raw 4 1 0 0 0 0 0 0 0 = Inr r)"
  using compute_derived_stats_from_raw_result [of 4 1 0 0 0 0 0 0 0]
  by (simp add: derived_one_for_four)

text \<open>
  The claim as stated (\<open>never raises for any input\<close>) fails: with \<open>AB = 1\<close> and
  \<open>H = 2 ^ 1024\<close> the division \<open>h / ab\<close> raises \<open>OverflowError\<close>.
\<close>

theorem derived_stats_overflow_counterexample:
  "compute_derived_stats_from_raw 1 (2 ^ 1024) 0 0 0 0 0 0 0 = Inl OverflowError"
  by (rule derived_overflow [OF py_truediv_overflow])


text \<open>
  Claim C3, as amended. Whenever the stat calculator returns, OBP and SLG are the quotients
  rounded to 3 decimals and OPS is \<open>round(OBP + SLG, 3)\<close>, the floating-point sum of these two
  already rounded values rounded once more to 3 decimals (it need not equal the sum itself);
  and for \<open>AB > 0\<close> the returned SLG is a finite float with
  \<open>|AB * SLG - TB| \<le> AB / 2000 + (|TB| + AB) / 2 ^ 51\<close>: half a unit of the third decimal
  per at bat, plus the floating-point error of the division and of the rounding.
\<close>

theorem ops_from_rounded_components:
  assumes "compute_derived_stats_from_raw ab h double triple hr bb hbp sf sh = Inr r"
  shows "Inr (d_OBP r) = (if 0 < ab + bb + hbp + sf
                          then ebind (py_truediv (h + bb + hbp) (ab + bb + hbp + sf)) py_round3
                          else Inr (Fin 0)) \<and>
         Inr (d_SLG r) = (if 0 < ab then ebind (py_truediv (d_TB r) ab) py_round3
                          else Inr (Fin 0)) \<and>
         Inr (d_OPS r) = py_round3 (py_fadd (d_OBP r) (d_SLG r)) \<and>
         (0 < ab \<longrightarrow> (\<exists>s. d_SLG r = Fin s \<and>
             \<bar>of_int ab * s - of_int (d_TB r)\<bar>
               \<le> of_int ab / 2000 + (\<bar>of_int (d_TB r)\<bar> + of_int ab) / 2 ^ 51))"
proof (intro conjI impI)
  assume ab: "0 < ab"
  from derived_fields(6) [OF assms] ab
  have "ebind (py_truediv (d_TB r) ab) py_round3 = Inr (d_SLG r)" by simp
  from slg_total_bases [OF ab this]
  show "\<exists>s. d_SLG r = Fin s \<and>
             \<bar>of_int ab * s - of_int (d_TB r)\<bar>
               \<le> of_int ab / 2000 + (\<bar>of_int (d_TB r)\<bar> + of_int ab) / 2 ^ 51" .
qed (rule derived_fields [OF assms])+


text \<open>
  One double in ten at bats: OBP is \<open>0.1\<close>, SLG is \<open>0.2\<close> and OPS is \<open>0.3\<close>.
\<close>

theorem ops_from_rounded_components_witness:
  "compute_derived_stats_from_raw 10 1 1 0 0 0 0 0 0
     = Inr \<lparr>d_singles = 0, d_PA = 10, d_TB = 2,
          d_AVG = Fin (3602879701896397 / 36028797018963968),
          d_OBP = Fin (3602879701896397 / 36028797018963968),
          d_SLG = Fin (3602879701896397 / 18014398509481984),
          d_OPS = Fin (5404319552844595 / 18014398509481984)\<rparr> \<and>
   Inr (Fin (5404319552844595 / 18014398509481984))
     = py_round3 (py_fadd (Fin (3602879701896397 / 36028797018963968))
                          (Fin (3602879701896397 / 18014398509481984))) \<and>
   \<bar>10 * (3602879701896397 / 18014398509481984) - 2\<bar>
     \<le> (10 / 2000 + (2 + 10) / 2 ^ 51 :: rat)"
  using ops_from_rounded_components [OF derived_one_for_ten]
  by (simp add: derived_one_for_ten)

text \<open>
  The claim as stated (\<open>OPS equals round(OBP, 3) + round(SLG, 3) exactly\<close>) fails on the same
  stat line: OBP \<open>0.1\<close> and SLG \<open>0.2\<close> are unchanged by rounding to 3 decimals, their float sum is
  \<open>0.30000000000000004\<close>, and the returned OPS is \<open>0.3\<close>, which is neither that float nor the
  exact sum of the two floats.
\<close>

theorem ops_sum_counterexample:
  "compute_derived_stats_from_raw 10 1 1 0 0 0 0 0 0
     = Inr \<lparr>d_singles = 0, d_PA = 10, d_TB = 2,
          d_AVG = Fin (3602879701896397 / 36028797018963968),
          d_OBP = Fin (3602879701896397 / 36028797018963968),
          d_SLG = Fin (3602879701896397 / 18014398509481984),
          d_OPS = Fin (5404319552844595 / 18014398509481984)\<rparr> \<and>
   py_round3 (Fin (3602879701896397 / 36028797018963968))
     = Inr (Fin (3602879701896397 / 36028797018963968)) \<and>
   py_round3 (Fin (3602879701896397 / 18014398509481984))
     = Inr (Fin (3602879701896397 / 18014398509481984)) \<and>
   py_fadd (Fin (3602879701896397 / 36028797018963968))
           (Fin (3602879701896397 / 18014398509481984))
     = Fin (1351079888211149 / 4503599627370496) \<and>
   Fin (1351079888211149 / 4503599627370496) \<noteq> Fin (5404319552844595 / 18014398509481984) \<and>
   (3602879701896397 / 36028797018963968 + 3602879701896397 / 18014398509481984 :: rat)
     \<noteq> 5404319552844595 / 18014398509481984"
  by (simp add: derived_one_for_ten py_round3_def
        nearest_double_tenth nearest_double_fifth
        nearest_double_tenth_plus_fifth round_half_even_numeral round_half_even_numeral_int)


section \<open>Player uniqueness\<close>

lemma update_fresh: "k \<notin> fst ` set al \<Longrightarrow> AList.update k v al = al @ [(k, v)]"
  by (induction al) auto

lemma same_players_refl: "same_players st st"
  by (simp add: same_players_def)

lemma same_players_trans: "same_players a b \<Longrightarrow> same_players b c \<Longrightarrow> same_players a c"
  by (simp add: same_players_def)

lemma same_players_ok: "same_players st st' \<Longrightarrow> player_index_ok st \<Longrightarrow> player_index_ok st'"
  by (simp add: same_players_def player_index_ok_def)

lemma player_index_ok_empty: "player_index_ok empty_store"
  by (simp add: player_index_ok_def empty_store_def)

lemma create_game_players: "same_players st (fst (create_game st g))"
  by (simp add: create_game_def same_players_def Let_def)

lemma create_plate_appearance_players: "same_players st (fst (create_plate_appearance st pa))"
  by (simp add: create_plate_appearance_def same_players_def Let_def)

lemma create_or_update_hitter_total_players:
  "same_players st (create_or_update_hitter_total st ht)"
  by (simp add: create_or_update_hitter_total_def same_players_def Let_def split: option.splits)

lemma update_player_total_players:
  "same_players st (fst (update_player_total st league season pid stats))"
  using create_or_update_hitter_total_players
  by (auto simp: update_player_total_def same_players_def Let_def
           split: option.splits prod.splits)

lemma recompute_loop_players:
  "same_players st (fst (recompute_loop st league season groups))"
proof (induction groups arbitrary: st)
  case Nil
  show ?case by (simp add: same_players_refl)
next
  case (Cons g groups)
  obtain pid stats where g: "g = (pid, stats)" by (cases g)
  obtain st1 r where u: "update_player_total st league season pid stats = (st1, r)"
    by (cases "update_player_total st league season pid stats")
  from update_player_total_players [of st league season pid stats] u
  have s1: "same_players st st1" by simp
  show ?case
  proof (cases r)
    case None
    with g u same_players_trans [OF s1 Cons.IH [of st1]] show ?thesis by simp
  next
    case (Some e)
    with g u s1 show ?thesis by simp
  qed
qed

lemma recompute_hitter_totals_players:
  "same_players st (fst (recompute_hitter_totals st league season))"
  unfolding recompute_hitter_totals_def by (rule recompute_loop_players)

lemma player_lookup:
  assumes ok: "player_index_ok st" and m: "(pid, p) \<in> set (players st)"
  shows "get_player_by_name_team st (player_name p) (player_team p) = Some (pid, p)"
proof -
  from ok m have i: "pid \<noteq> 0"
    "map_of (player_index st) (player_key (player_name p) (player_team p)) = Some pid"
    by (auto simp: player_index_ok_def list_all_iff)
  from ok m have "map_of (players st) pid = Some p"
    by (simp add: player_index_ok_def)
  with i show ?thesis by (simp add: get_player_by_name_team_def)
qed

lemma create_player_ok:
  assumes ok: "player_index_ok st"
    and none: "get_player_by_name_team st (player_name p) (player_team p) = None"
  shows "player_index_ok (fst (create_player st p))"
proof -
  let ?pid = "player_id_counter st + 1"
  let ?k = "player_key (player_name p) (player_team p)"
  have fresh: "?pid \<notin> fst ` set (players st)"
    using ok by (fastforce simp: player_index_ok_def list_all_iff)
  have upd: "AList.update ?pid p (players st) = players st @ [(?pid, p)]"
    using fresh by (rule update_fresh)
  have other: "player_key (player_name q) (player_team q) \<noteq> ?k"
    if "(i, q) \<in> set (players st)" for i q
  proof
    assume e: "player_key (player_name q) (player_team q) = ?k"
    from player_lookup [OF ok that]
    have "get_player_by_name_team st (player_name q) (player_team q) = Some (i, q)" .
    then have "get_player_by_name_team st (player_name p) (player_team p) = Some (i, q)"
      using e by (simp add: get_player_by_name_team_def)
    with none show False by simp
  qed
  have d: "distinct (map fst (players st @ [(?pid, p)]))"
    using ok fresh by (auto simp: player_index_ok_def)
  have l: "list_all (\<lambda>(i, q). i \<noteq> 0 \<and> i \<le> ?pid \<and>
            map_of (AList.update ?k ?pid (player_index st))
              (player_key (player_name q) (player_team q)) = Some i)
          (players st @ [(?pid, p)])"
    using ok other by (auto simp: player_index_ok_def list_all_iff update_conv')
  have "fst (create_player st p) =
      st\<lparr>player_id_counter := ?pid, players := players st @ [(?pid, p)],
         player_index := AList.update ?k ?pid (player_index st)\<rparr>"
    unfolding create_player_def Let_def upd by simp
  then show ?thesis unfolding player_index_ok_def using d l by simp
qed

lemma ingest_player_row_ok:
  assumes ok: "player_index_ok st"
  shows "player_index_ok (fst (ingest_player_row st gid team league ps))"
proof (cases "ps_player_name ps = [] \<or> ps_player_name ps = ''Unknown''")
  case True
  with ok show ?thesis by (simp add: ingest_player_row_def)
next
  case False
  let ?p = "\<lparr>player_name = ps_player_name ps, player_team = team, player_league = Some league\<rparr>"
  show ?thesis
  proof (cases "get_player_by_name_team st (ps_player_name ps) team")
    case None
    then have "get_player_by_name_team st (player_name ?p) (player_team ?p) = None" by simp
    from create_player_ok [OF ok this]
    have c: "player_index_ok (fst (create_player st ?p))" .
    obtain st1 pid where cp: "create_player st ?p = (st1, pid)" by (cases "create_player st ?p")
    with c have "player_index_ok st1" by simp
    from same_players_ok [OF create_plate_appearance_players this]
    show ?thesis using False None cp
      by (simp add: ingest_player_row_def)
  next
    case (Some a)
    obtain pid p where a: "a = (pid, p)" by (cases a)
    from same_players_ok [OF create_plate_appearance_players ok]
    show ?thesis using False Some a
      by (simp add: ingest_player_row_def)
  qed
qed

lemma ingest_rows_ok:
  "player_index_ok st \<Longrightarrow> player_index_ok (fst (ingest_rows st gid team league rows))"
proof (induction st gid team league rows rule: ingest_rows.induct)
  case (3 st gid team league ps rows)
  obtain st1 k where r: "ingest_player_row st gid team league ps = (st1, k)"
    by (cases "ingest_player_row st gid team league ps")
  from ingest_player_row_ok [OF "3.prems", of gid team league ps] r
  have "player_index_ok st1" by simp
  from "3.IH" [OF r [symmetric] this]
  have ih: "player_index_ok (fst (ingest_rows st1 gid team league rows))" .
  obtain st2 res where i: "ingest_rows st1 gid team league rows = (st2, res)"
    by (cases "ingest_rows st1 gid team league rows")
  with ih have "player_index_ok st2" by simp
  with r i show ?case by (cases res) simp_all
qed simp_all

lemma persist_game_ok:
  assumes ok: "player_index_ok st"
  shows "player_index_ok (fst (persist_game st league season d pg))"
proof -
  obtain st1 gid where g: "create_game st
            \<lparr>game_league = league, game_season = season, game_date = d,
             home_team = pg_home_team pg, away_team = pg_away_team pg,
             home_score = pg_home_score pg, away_score = pg_away_score pg,
             winner = pg_winner pg\<rparr> = (st1, gid)"
    by (cases "create_game st
            \<lparr>game_league = league, game_season = season, game_date = d,
             home_team = pg_home_team pg, away_team = pg_away_team pg,
             home_score = pg_home_score pg, away_score = pg_away_score pg,
             winner = pg_winner pg\<rparr>")
  from same_players_ok [OF create_game_players ok] g have o1: "player_index_ok st1"
    by (metis fst_conv)
  obtain st2 r2 where i1: "ingest_rows st1 gid (pg_home_team pg) league (pg_team1_rows pg) = (st2, r2)"
    by (cases "ingest_rows st1 gid (pg_home_team pg) league (pg_team1_rows pg)")
  from ingest_rows_ok [OF o1, of gid "pg_home_team pg" league "pg_team1_rows pg"] i1
  have o2: "player_index_ok st2" by simp
  obtain st3 r3 where i2: "ingest_rows st2 gid (pg_away_team pg) league (pg_team2_rows pg) = (st3, r3)"
    by (cases "ingest_rows st2 gid (pg_away_team pg) league (pg_team2_rows pg)")
  from ingest_rows_ok [OF o2, of gid "pg_away_team pg" league "pg_team2_rows pg"] i2
  have o3: "player_index_ok st3" by simp
  show ?thesis
    unfolding persist_game_def g using i1 i2 o2 o3
    by (simp split: sum.splits)
qed

lemma ingest_game_csv_ok:
  "player_index_ok st \<Longrightarrow>
   player_index_ok (fst (ingest_game_csv st body csv_table league season d home away))"
  by (simp add: ingest_game_csv_def persist_game_ok split: sum.splits)

lemma upload_csv_ok:
  assumes ok: "player_index_ok st"
  shows "player_index_ok (fst (upload_csv st body csv_table league season d home away))"
proof (cases "detect_team_names body csv_table home away")
  case (Inl e)
  with ok show ?thesis by (simp add: upload_csv_def)
next
  case (Inr names)
  obtain a b where names: "names = (a, b)" by (cases names)
  show ?thesis
  proof (cases "check_duplicate_game st d league season a b")
    case (Some dup)
    obtain gid g where "dup = (gid, g)" by (cases dup)
    with Inr names Some ok show ?thesis by (simp add: upload_csv_def)
  next
    case None
    note nodup = this
    define h where "h = (if supplied home then home else None)"
    define w where "w = (if supplied away then away else None)"
    obtain st1 r1 where i: "ingest_game_csv st body csv_table league season d h w = (st1, r1)"
      by (cases "ingest_game_csv st body csv_table league season d h w")
    from ingest_game_csv_ok [OF ok, of body csv_table league season d h w] i
    have o1: "player_index_ok st1" by simp
    obtain st2 r2 where c: "recompute_hitter_totals st1 league season = (st2, r2)"
      by (cases "recompute_hitter_totals st1 league season")
    from same_players_ok [OF recompute_hitter_totals_players o1, of league season] c
    have o2: "player_index_ok st2" by simp
    have u: "upload_csv st body csv_table league season d home away =
        (case ingest_game_csv st body csv_table league season d h w of
           (st1, Inl e) \<Rightarrow> (st1, Inl e)
         | (st1, Inr res) \<Rightarrow>
             (case recompute_hitter_totals st1 league season of
                (st2, Some e) \<Rightarrow> (st2, Inl e)
              | (st2, None) \<Rightarrow> (st2, Inr (new_game_id res, rows_ingested res))))"
      using Inr names nodup by (simp add: upload_csv_def h_def w_def)
    show ?thesis
    proof (cases r1)
      case (Inl e)
      with i o1 show ?thesis unfolding u by simp
    next
      case res: (Inr res)
      show ?thesis
      proof (cases r2)
        case None
        with i res c o2 show ?thesis unfolding u by simp
      next
        case (Some e)
        with i res c o2 show ?thesis unfolding u by simp
      qed
    qed
  qed
qed

lemma reachable_player_index_ok: "reachable st \<Longrightarrow> player_index_ok st"
proof (induction rule: reachable.induct)
  case reachable_empty
  show ?case by (rule player_index_ok_empty)
next
  case (reachable_upload st body csv_table league season d home away st' r)
  from upload_csv_ok [OF reachable_upload.IH, of body csv_table league season d home away]
    reachable_upload.hyps(2)
  show ?case by simp
qed

lemma get_player_by_key:
  assumes "player_key n t = player_key n' t'"
  shows "get_player_by_name_team st n t = get_player_by_name_team st n' t'"
  by (simp only: get_player_by_name_team_def assms)

lemma player_index_ok_keys:
  assumes ok: "player_index_ok st"
  shows "distinct (map stored_player_key (players st))"
proof -
  have "inj_on stored_player_key (set (players st))"
  proof (rule inj_onI)
    fix x y assume x: "x \<in> set (players st)" and y: "y \<in> set (players st)"
      and e: "stored_player_key x = stored_player_key y"
    have k: "player_key (player_name (snd x)) (player_team (snd x))
        = player_key (player_name (snd y)) (player_team (snd y))"
      using e unfolding stored_player_key_def .
    have "(fst x, snd x) \<in> set (players st)" using x by simp
    then have lx: "get_player_by_name_team st (player_name (snd x)) (player_team (snd x))
        = Some (fst x, snd x)" by (rule player_lookup [OF ok])
    have "(fst y, snd y) \<in> set (players st)" using y by simp
    then have ly: "get_player_by_name_team st (player_name (snd y)) (player_team (snd y))
        = Some (fst y, snd y)" by (rule player_lookup [OF ok])
    have "Some (fst x, snd x) = Some (fst y, snd y)"
      unfolding lx [symmetric] ly [symmetric] by (rule get_player_by_key [OF k])
    then show "x = y" by (simp add: prod_eq_iff)
  qed
  moreover have "distinct (map fst (players st))" using ok unfolding player_index_ok_def ..
  then have "distinct (players st)" by (simp add: distinct_map)
  ultimately show ?thesis unfolding distinct_map by (intro conjI)
qed

text \<open>
  Claim C9. In every store that uploads can produce from the empty store, no two
  players have the same normalised (name, team) pair, lower-cased and trimmed; and
  looking up the name and team of any stored player finds that player, so that
  ingestion, which creates a player only when the lookup finds none, never creates a
  second one for the pair.
\<close>

theorem player_uniqueness:
  assumes "reachable st"
  shows "distinct (map stored_player_key (players st)) \<and>
         (\<forall>pid p. (pid, p) \<in> set (players st) \<longrightarrow>
            get_player_by_name_team st (player_name p) (player_team p) = Some (pid, p))"
proof (intro conjI allI impI)
  from reachable_player_index_ok [OF assms] have ok: "player_index_ok st" .
  show "distinct (map stored_player_key (players st))"
    using ok by (rule player_index_ok_keys)
  show "get_player_by_name_team st (player_name p) (player_team p) = Some (pid, p)"
    if "(pid, p) \<in> set (players st)" for pid p
    using ok that by (rule player_lookup)
qed


text \<open>
  Two uploads: the second names a player \<open>AL\<close> of team \<open>x\<close> with surrounding blanks, who is
  the stored \<open>Al\<close> of team \<open>X\<close>, and a new player.
\<close>

theorem player_uniqueness_witness:
  "reachable
     (fst (upload_csv
        (fst (upload_csv empty_store []
                (Inr \<lparr>df_columns = [''Player'', ''AB''],
                      df_rows = [[CStr ''Al'', CInt 3], [CStr ''Bo'', CInt 2]]\<rparr>)
                ''L'' ''2024'' (2024, 1, 15) (Some ''X'') (Some ''Y'')))
        []
        (Inr \<lparr>df_columns = [''Player'', ''AB''],
              df_rows = [[CStr '' AL '', CInt 1], [CStr ''Cy'', CInt 4]]\<rparr>)
        ''L'' ''2024'' (2024, 1, 16) (Some '' x '') (Some ''Y''))) \<and>
   map (\<lambda>(pid, p). (pid, player_name p, player_team p))
     (players (fst (upload_csv
        (fst (upload_csv empty_store []
                (Inr \<lparr>df_columns = [''Player'', ''AB''],
                      df_rows = [[CStr ''Al'', CInt 3], [CStr ''Bo'', CInt 2]]\<rparr>)
                ''L'' ''2024'' (2024, 1, 15) (Some ''X'') (Some ''Y'')))
        []
        (Inr \<lparr>df_columns = [''Player'', ''AB''],
              df_rows = [[CStr '' AL '', CInt 1], [CStr ''Cy'', CInt 4]]\<rparr>)
        ''L'' ''2024'' (2024, 1, 16) (Some '' x '') (Some ''Y''))))
     = [(1, ''Al'', ''X''), (2, ''Bo'', ''X''), (3, ''Cy'', '' x '')] \<and>
   distinct (map stored_player_key
     (players (fst (upload_csv
        (fst (upload_csv empty_store []
                (Inr \<lparr>df_columns = [''Player'', ''AB''],
                      df_rows = [[CStr ''Al'', CInt 3], [CStr ''Bo'', CInt 2]]\<rparr>)
                ''L'' ''2024'' (2024, 1, 15) (Some ''X'') (Some ''Y'')))
        []
        (Inr \<lparr>df_columns = [''Player'', ''AB''],
              df_rows = [[CStr '' AL '', CInt 1], [CStr ''Cy'', CInt 4]]\<rparr>)
        ''L'' ''2024'' (2024, 1, 16) (Some '' x '') (Some ''Y'')))))"
proof -
  let ?st1 = "fst (upload_csv empty_store []
                (Inr \<lparr>df_columns = [''Player'', ''AB''],
                      df_rows = [[CStr ''Al'', CInt 3], [CStr ''Bo'', CInt 2]]\<rparr>)
                ''L'' ''2024'' (2024, 1, 15) (Some ''X'') (Some ''Y''))"
  let ?st2 = "fst (upload_csv ?st1 []
        (Inr \<lparr>df_columns = [''Player'', ''AB''],
              df_rows = [[CStr '' AL '', CInt 1], [CStr ''Cy'', CInt 4]]\<rparr>)
        ''L'' ''2024'' (2024, 1, 16) (Some '' x '') (Some ''Y''))"
  have r1: "reachable ?st1"
    by (rule reachable_upload [OF reachable_empty prod.collapse [symmetric]])
  have r2: "reachable ?st2"
    by (rule reachable_upload [OF r1 prod.collapse [symmetric]])
  have e: "map (\<lambda>(pid, p). (pid, player_name p, player_team p)) (players ?st2)
      = [(1, ''Al'', ''X''), (2, ''Bo'', ''X''), (3, ''Cy'', '' x '')]"
    by code_simp
  from player_uniqueness [OF r2] have "distinct (map stored_player_key (players ?st2))" by blast
  with r2 e show ?thesis by blast
qed

end
